theory Spec2Isabelle
  imports Complex_Main "HOL-Library.Sublist"
begin

section \<open>Strings and numbers of the source language\<close>

text \<open>
  Source strings are modelled as \<^typ>\<open>string\<close>, a \<^typ>\<open>char\<close> being a code unit below
  256: the strings of the model are the source strings made of such code units. The
  whitespace class of the source language (white space and line terminators, as
  \<^verbatim>\<open>trim\<close> and \<^verbatim>\<open>parseInt\<close> skip them) has seven members below 256: TAB, LF, VT,
  FF, CR, SP and the no-break space U+00A0. Case folding sends the capital letters below
  256 (A to Z, and U+00C0 to U+00DE without the multiplication sign U+00D7) to the code unit
  32 above.
\<close>

definition isWhiteSpace :: "char \<Rightarrow> bool" where
  "isWhiteSpace c =
     (c \<in> set [CHR 0x09, CHR 0x0A, CHR 0x0B, CHR 0x0C, CHR 0x0D, CHR '' '', CHR 0xA0])"

text \<open>\<^verbatim>\<open>String.prototype.trim\<close>: whitespace removed at both ends.\<close>

definition trim :: "string \<Rightarrow> string" where
  "trim s = rev (dropWhile isWhiteSpace (rev (dropWhile isWhiteSpace s)))"

text \<open>\<^verbatim>\<open>s.includes(sub)\<close>: \<open>sub\<close> occurs in \<open>s\<close> as a contiguous run.\<close>

fun includesStr :: "string \<Rightarrow> string \<Rightarrow> bool" where
  "includesStr [] sub = (sub = [])"
| "includesStr (x # xs) sub = (prefix sub (x # xs) \<or> includesStr xs sub)"

text \<open>\<^verbatim>\<open>s.startsWith(p)\<close>.\<close>

definition startsWith :: "string \<Rightarrow> string \<Rightarrow> bool" where
  "startsWith s p = prefix p s"

text \<open>\<^verbatim>\<open>s.toLowerCase()\<close>.\<close>

definition lowerChar :: "char \<Rightarrow> char" where
  "lowerChar c =
     (if (65 \<le> (of_char c :: nat) \<and> (of_char c :: nat) \<le> 90)
         \<or> (192 \<le> (of_char c :: nat) \<and> (of_char c :: nat) \<le> 222 \<and> (of_char c :: nat) \<noteq> 215)
      then char_of (of_char c + (32 :: nat))
      else c)"

definition toLowerCase :: "string \<Rightarrow> string" where
  "toLowerCase s = map lowerChar s"

text \<open>\<^verbatim>\<open>parts.join(sep)\<close>.\<close>

fun joinWith :: "string \<Rightarrow> string list \<Rightarrow> string" where
  "joinWith sep [] = []"
| "joinWith sep [x] = x"
| "joinWith sep (x # y # ys) = x @ sep @ joinWith sep (y # ys)"

text \<open>Decimal digits: their class, their value and the digit of a value below ten.\<close>

definition isDigit :: "char \<Rightarrow> bool" where
  "isDigit c = (48 \<le> (of_char c :: nat) \<and> (of_char c :: nat) \<le> 57)"

definition digitVal :: "char \<Rightarrow> nat" where
  "digitVal c = of_char c - 48"

definition digitChar :: "nat \<Rightarrow> char" where
  "digitChar d = char_of (48 + d)"

definition readDigits :: "string \<Rightarrow> nat" where
  "readDigits ds = foldl (\<lambda>a c. 10 * a + digitVal c) 0 ds"

text \<open>
  The decimal rendering of an integer-valued number, as a template literal
  \<^verbatim>\<open>`${n}`\<close> produces it (plain digits, below \<open>10\<^sup>2\<^sup>1\<close> in the source language).
\<close>

fun showNat :: "nat \<Rightarrow> string" where
  "showNat n = (if n < 10 then [digitChar n] else showNat (n div 10) @ [digitChar (n mod 10)])"

declare showNat.simps [simp del]

definition showInt :: "int \<Rightarrow> string" where
  "showInt i = (if i < 0 then CHR ''-'' # showNat (nat (- i)) else showNat (nat i))"

text \<open>
  \<^verbatim>\<open>parseInt(value, 10)\<close>: leading whitespace is skipped, one sign is read, then the
  longest run of decimal digits; with no digit the result is \<^verbatim>\<open>NaN\<close>, here \<open>None\<close>.
  Whatever follows the digits is ignored. The value is exact (the source's numbers are
  exact on integers below \<open>2\<^sup>5\<^sup>3\<close>).
\<close>

definition parseInt10 :: "string \<Rightarrow> int option" where
  "parseInt10 s =
     (let s1 = dropWhile isWhiteSpace s;
          neg = (s1 \<noteq> [] \<and> hd s1 = CHR ''-'');
          s2 = (if s1 \<noteq> [] \<and> (hd s1 = CHR ''-'' \<or> hd s1 = CHR ''+'') then tl s1 else s1);
          ds = takeWhile isDigit s2
      in if ds = [] then None
         else Some (if neg then - int (readDigits ds) else int (readDigits ds)))"

text \<open>Truthiness of a nullable string and of a nullable number.\<close>

definition truthyStr :: "string option \<Rightarrow> bool" where
  "truthyStr v = (case v of None \<Rightarrow> False | Some s \<Rightarrow> s \<noteq> [])"

definition truthyNum :: "int option \<Rightarrow> bool" where
  "truthyNum v = (case v of None \<Rightarrow> False | Some n \<Rightarrow> n \<noteq> 0)"

section \<open>Parameter validation (utils/params.ts)\<close>

datatype FitMode = Cover | Contain | Fill
datatype ImageFormat = Jpeg | Png
datatype CropPosition = Center | Top | Bottom | Left | Right

record TransformConfig =
  bucket :: string
  path :: string
  width :: "int option"
  height :: "int option"
  fit :: FitMode
  format :: "ImageFormat option"
  quality :: int
  background :: "string option"
  crop :: CropPosition
  noCache :: bool

record ValidationLimits =
  maxWidth :: int
  maxHeight :: int
  defaultQuality :: int
  defaultBucket :: string

text \<open>Every \<^verbatim>\<open>throw new Error(...)\<close> of the validator is one constructor.\<close>

datatype error =
    PathTraversal
  | EmptyPath
  | MissingPath
  | InvalidNumber string
  | OutOfRange string int int
  | InvalidFit string
  | InvalidFormat string
  | InvalidCrop string
  | InvalidBackground string

text \<open>
  \<^verbatim>\<open>replace(/^\/+|\/+$/g, "")\<close>: the leading run and the trailing run of slashes are
  removed.
\<close>

definition stripSlashes :: "string \<Rightarrow> string" where
  "stripSlashes s =
     rev (dropWhile (\<lambda>c. c = CHR ''/'') (rev (dropWhile (\<lambda>c. c = CHR ''/'') s)))"

definition sanitizePath :: "string \<Rightarrow> error + string" where
  "sanitizePath p =
     (let sanitized = stripSlashes (trim p) in
      if includesStr sanitized ''..'' \<or> startsWith sanitized ''/'' then Inl PathTraversal
      else if sanitized = [] then Inl EmptyPath
      else Inr sanitized)"

definition parseIntParam :: "string option \<Rightarrow> int \<Rightarrow> int \<Rightarrow> error + int option" where
  "parseIntParam v mn mx =
     (case v of
        None \<Rightarrow> Inr None
      | Some s \<Rightarrow>
          if s = [] then Inr None
          else (case parseInt10 s of
                  None \<Rightarrow> Inl (InvalidNumber s)
                | Some parsed \<Rightarrow>
                    if parsed < mn \<or> parsed > mx then Inl (OutOfRange s mn mx)
                    else Inr (Some parsed)))"

definition parseFitMode :: "string option \<Rightarrow> error + FitMode" where
  "parseFitMode v =
     (case v of
        None \<Rightarrow> Inr Cover
      | Some s \<Rightarrow>
          if s = [] then Inr Cover
          else if s = ''cover'' then Inr Cover
          else if s = ''contain'' then Inr Contain
          else if s = ''fill'' then Inr Fill
          else Inl (InvalidFit s))"

definition parseFormat :: "string option \<Rightarrow> error + ImageFormat option" where
  "parseFormat v =
     (case v of
        None \<Rightarrow> Inr None
      | Some s \<Rightarrow>
          if s = [] then Inr None
          else if s = ''jpeg'' then Inr (Some Jpeg)
          else if s = ''png'' then Inr (Some Png)
          else Inl (InvalidFormat s))"

definition parseCropPosition :: "string option \<Rightarrow> error + CropPosition" where
  "parseCropPosition v =
     (case v of
        None \<Rightarrow> Inr Center
      | Some s \<Rightarrow>
          if s = [] then Inr Center
          else if s = ''center'' then Inr Center
          else if s = ''top'' then Inr Top
          else if s = ''bottom'' then Inr Bottom
          else if s = ''left'' then Inr Left
          else if s = ''right'' then Inr Right
          else Inl (InvalidCrop s))"

text \<open>\<^verbatim>\<open>/^[0-9A-Fa-f]{6}$/\<close>: exactly six hexadecimal digits.\<close>

definition isHexDigit :: "char \<Rightarrow> bool" where
  "isHexDigit c =
     (isDigit c \<or> (65 \<le> (of_char c :: nat) \<and> (of_char c :: nat) \<le> 70)
      \<or> (97 \<le> (of_char c :: nat) \<and> (of_char c :: nat) \<le> 102))"

definition parseBackground :: "string option \<Rightarrow> error + string option" where
  "parseBackground v =
     (case v of
        None \<Rightarrow> Inr None
      | Some s \<Rightarrow>
          if s = [] then Inr None
          else if length s = 6 \<and> list_all isHexDigit s then Inr (Some s)
          else Inl (InvalidBackground s))"

text \<open>
  \<^verbatim>\<open>URLSearchParams\<close>: the decoded name/value pairs in the order received;
  \<^verbatim>\<open>get(name)\<close> is the first value under that name, or \<^verbatim>\<open>null\<close>.
\<close>

type_synonym SearchParams = "(string \<times> string) list"

definition get :: "SearchParams \<Rightarrow> string \<Rightarrow> string option" where
  "get sp name = map_of sp name"

text \<open>\<^verbatim>\<open>URLSearchParams.delete(name)\<close>: every pair under that name is removed.\<close>

definition delete :: "SearchParams \<Rightarrow> string \<Rightarrow> SearchParams" where
  "delete sp name = filter (\<lambda>(n, v). n \<noteq> name) sp"

definition parseQueryParams :: "SearchParams \<Rightarrow> ValidationLimits \<Rightarrow> error + TransformConfig" where
  "parseQueryParams sp limits =
     (let bucket' = (if truthyStr (get sp ''bucket'') then the (get sp ''bucket'')
                     else defaultBucket limits);
          rawPath = get sp ''path''
      in if \<not> truthyStr rawPath then Inl MissingPath
      else case sanitizePath (the rawPath) of Inl e \<Rightarrow> Inl e | Inr path' \<Rightarrow>
        (case parseIntParam (get sp ''w'') 1 (maxWidth limits) of Inl e \<Rightarrow> Inl e | Inr width' \<Rightarrow>
        (case parseIntParam (get sp ''h'') 1 (maxHeight limits) of Inl e \<Rightarrow> Inl e | Inr height' \<Rightarrow>
        (case parseFitMode (get sp ''fit'') of Inl e \<Rightarrow> Inl e | Inr fit' \<Rightarrow>
        (case parseFormat (get sp ''format'') of Inl e \<Rightarrow> Inl e | Inr format' \<Rightarrow>
        (case parseIntParam (get sp ''q'') 1 100 of Inl e \<Rightarrow> Inl e | Inr q \<Rightarrow>
        (let quality' = (if truthyNum q then the q else defaultQuality limits) in
        (case parseBackground (get sp ''bg'') of Inl e \<Rightarrow> Inl e | Inr background' \<Rightarrow>
        (case parseCropPosition (get sp ''crop'') of Inl e \<Rightarrow> Inl e | Inr crop' \<Rightarrow>
           Inr \<lparr> bucket = bucket', path = path', width = width', height = height',
                 fit = fit', format = format', quality = quality',
                 background = background', crop = crop',
                 noCache = (get sp ''no_cache'' = Some ''1'') \<rparr>)))))))))"

text \<open>
  The invariant of a configuration in the data model: dimensions, when present, within
  \<open>[1, max]\<close>; quality within \<open>[1, 100]\<close>; a background, when present, of six
  hexadecimal digits; a non-empty relative path without \<^verbatim>\<open>..\<close>.
\<close>

definition validConfig :: "ValidationLimits \<Rightarrow> TransformConfig \<Rightarrow> bool" where
  "validConfig limits c =
     ((case width c of None \<Rightarrow> True | Some w \<Rightarrow> 1 \<le> w \<and> w \<le> maxWidth limits)
      \<and> (case height c of None \<Rightarrow> True | Some h \<Rightarrow> 1 \<le> h \<and> h \<le> maxHeight limits)
      \<and> 1 \<le> quality c \<and> quality c \<le> 100
      \<and> (case background c of None \<Rightarrow> True
          | Some b \<Rightarrow> length b = 6 \<and> list_all isHexDigit b)
      \<and> path c \<noteq> [] \<and> \<not> includesStr (path c) ''..'' \<and> \<not> startsWith (path c) ''/'')"

section \<open>Cache key derivation (utils/cache-key.ts)\<close>

definition getExtensionFromFormat :: "ImageFormat \<Rightarrow> string" where
  "getExtensionFromFormat f = (case f of Jpeg \<Rightarrow> ''jpg'' | Png \<Rightarrow> ''png'')"

definition getMimeType :: "ImageFormat \<Rightarrow> string" where
  "getMimeType f = (case f of Jpeg \<Rightarrow> ''image/jpeg'' | Png \<Rightarrow> ''image/png'')"

text \<open>\<^verbatim>\<open>path.split(".").pop()\<close>: what follows the last dot, the whole path without one.\<close>

definition lastSegment :: "string \<Rightarrow> string" where
  "lastSegment p = rev (takeWhile (\<lambda>c. c \<noteq> CHR ''.'') (rev p))"

definition inferFormatFromPath :: "string \<Rightarrow> ImageFormat" where
  "inferFormatFromPath p =
     (let ext = toLowerCase (lastSegment p) in
      if ext = ''jpg'' \<or> ext = ''jpeg'' then Jpeg
      else if ext = ''png'' then Png
      else Jpeg)"

text \<open>
  \<^verbatim>\<open>path.replace(/\.[^.]+$/, "")\<close>: a last dot followed by at least one character is
  removed together with what follows it.
\<close>

definition stripExtension :: "string \<Rightarrow> string" where
  "stripExtension p =
     (let r = rev p;
          ext = takeWhile (\<lambda>c. c \<noteq> CHR ''.'') r;
          rest = dropWhile (\<lambda>c. c \<noteq> CHR ''.'') r
      in if rest \<noteq> [] \<and> ext \<noteq> [] then rev (tl rest) else p)"

definition fitName :: "FitMode \<Rightarrow> string" where
  "fitName f = (case f of Cover \<Rightarrow> ''cover'' | Contain \<Rightarrow> ''contain'' | Fill \<Rightarrow> ''fill'')"

definition formatName :: "ImageFormat \<Rightarrow> string" where
  "formatName f = (case f of Jpeg \<Rightarrow> ''jpeg'' | Png \<Rightarrow> ''png'')"

definition cropName :: "CropPosition \<Rightarrow> string" where
  "cropName p =
     (case p of Center \<Rightarrow> ''center'' | Top \<Rightarrow> ''top'' | Bottom \<Rightarrow> ''bottom''
      | Left \<Rightarrow> ''left'' | Right \<Rightarrow> ''right'')"

text \<open>\<^verbatim>\<open>config.format || originalFormat\<close>.\<close>

definition outputFormatOf :: "TransformConfig \<Rightarrow> ImageFormat" where
  "outputFormatOf c =
     (case format c of Some f \<Rightarrow> f | None \<Rightarrow> inferFormatFromPath (path c))"

text \<open>The parts pushed after the path, in the order of the source.\<close>

definition transformParts :: "TransformConfig \<Rightarrow> string list" where
  "transformParts c =
     (if truthyNum (width c) then [''w='' @ showInt (the (width c))] else []) @
     (if truthyNum (height c) then [''h='' @ showInt (the (height c))] else []) @
     (if fit c \<noteq> Cover \<and> (truthyNum (width c) \<or> truthyNum (height c))
      then [''fit='' @ fitName (fit c)] else []) @
     (if format c \<noteq> None \<and> format c \<noteq> Some (inferFormatFromPath (path c))
      then [''fmt='' @ formatName (the (format c))] else []) @
     (if quality c \<noteq> 80 then [''q='' @ showInt (quality c)] else []) @
     (if truthyStr (background c) then [''bg='' @ the (background c)] else []) @
     (if crop c \<noteq> Center \<and> (truthyNum (width c) \<or> truthyNum (height c))
      then [''crop='' @ cropName (crop c)] else [])"

definition buildCacheKey :: "TransformConfig \<Rightarrow> string" where
  "buildCacheKey c =
     joinWith ''__'' (stripExtension (path c) # transformParts c)
       @ ''.'' @ getExtensionFromFormat (outputFormatOf c)"

section \<open>Geometry (utils/image.ts)\<close>

text \<open>
  The source computes on binary floating-point numbers. A number is modelled as a real,
  and the rounding of each inexact operation (a division, a product with a ratio) is the
  parameter \<open>fl\<close>: the result of the operation is \<open>fl\<close> of the exact result.
  \<open>roundsWithin eps fl\<close> says that \<open>fl\<close> changes a value by at most the fraction
  \<open>eps\<close> of it: exact arithmetic, \<open>fl = (\<lambda>x. x)\<close>, rounds within 0, and
  round-to-nearest in double precision rounds within \<open>2\<^sup>-\<^sup>5\<^sup>3\<close> (away from overflow
  and underflow, which ratios of pixel counts do not reach), which is \<open>ieeeRounding\<close>.
  The natural dimensions of a decoded raster are positive, and the model is read on
  positive dimensions only: the source does not guard the division.
\<close>

definition roundsWithin :: "real \<Rightarrow> (real \<Rightarrow> real) \<Rightarrow> bool" where
  "roundsWithin eps fl = (\<forall>x. \<bar>fl x - x\<bar> \<le> \<bar>x\<bar> * eps)"

definition ieeeRounding :: "(real \<Rightarrow> real) \<Rightarrow> bool" where
  "ieeeRounding fl = roundsWithin (1 / 2 ^ 53) fl"

text \<open>\<^verbatim>\<open>Math.round\<close>: the nearest integer, a tie going up.\<close>

definition jsRound :: "real \<Rightarrow> int" where
  "jsRound x = \<lfloor>x + 1 / 2\<rfloor>"

record Dimensions =
  dimWidth :: int
  dimHeight :: int
  shouldCrop :: bool

definition calculateDimensions ::
  "(real \<Rightarrow> real) \<Rightarrow> int \<Rightarrow> int \<Rightarrow> int option \<Rightarrow> int option \<Rightarrow> FitMode \<Rightarrow> Dimensions" where
  "calculateDimensions fl originalWidth originalHeight targetWidth targetHeight fit' =
     (if \<not> truthyNum targetWidth \<and> \<not> truthyNum targetHeight then
        \<lparr> dimWidth = originalWidth, dimHeight = originalHeight, shouldCrop = False \<rparr>
      else if \<not> truthyNum targetWidth then
        (let ratio = fl (real_of_int originalWidth / real_of_int originalHeight) in
         \<lparr> dimWidth = jsRound (fl (real_of_int (the targetHeight) * ratio)),
           dimHeight = the targetHeight, shouldCrop = False \<rparr>)
      else if \<not> truthyNum targetHeight then
        (let ratio = fl (real_of_int originalHeight / real_of_int originalWidth) in
         \<lparr> dimWidth = the targetWidth,
           dimHeight = jsRound (fl (real_of_int (the targetWidth) * ratio)),
           shouldCrop = False \<rparr>)
      else
        (let tw = the targetWidth; th = the targetHeight;
             aspectRatio = fl (real_of_int originalWidth / real_of_int originalHeight);
             targetRatio = fl (real_of_int tw / real_of_int th)
         in case fit' of
              Fill \<Rightarrow> \<lparr> dimWidth = tw, dimHeight = th, shouldCrop = False \<rparr>
            | Contain \<Rightarrow>
                if aspectRatio > targetRatio then
                  \<lparr> dimWidth = tw, dimHeight = jsRound (fl (real_of_int tw / aspectRatio)),
                    shouldCrop = False \<rparr>
                else
                  \<lparr> dimWidth = jsRound (fl (real_of_int th * aspectRatio)), dimHeight = th,
                    shouldCrop = False \<rparr>
            | Cover \<Rightarrow>
                if aspectRatio > targetRatio then
                  \<lparr> dimWidth = jsRound (fl (real_of_int th * aspectRatio)), dimHeight = th,
                    shouldCrop = True \<rparr>
                else
                  \<lparr> dimWidth = tw, dimHeight = jsRound (fl (real_of_int tw / aspectRatio)),
                    shouldCrop = True \<rparr>))"

text \<open>
  \<^verbatim>\<open>applyCrop\<close> reads the width and the height of the raster, here the pair
  \<open>img\<close>. The result is \<open>None\<close> where the raster is returned as it is, and
  \<open>Some (x, y, w, h)\<close> where \<^verbatim>\<open>image.crop(x, y, w, h)\<close> is called. A difference of two
  integers and its half are exact in the source's numbers.
\<close>

definition applyCrop ::
  "int \<times> int \<Rightarrow> int \<Rightarrow> int \<Rightarrow> CropPosition \<Rightarrow> (int \<times> int \<times> int \<times> int) option" where
  "applyCrop img targetWidth targetHeight position =
     (let w = fst img; h = snd img in
      if w = targetWidth \<and> h = targetHeight then None
      else
        (let x = (case position of
                    Center \<Rightarrow> jsRound (real_of_int (w - targetWidth) / 2)
                  | Top \<Rightarrow> jsRound (real_of_int (w - targetWidth) / 2)
                  | Bottom \<Rightarrow> jsRound (real_of_int (w - targetWidth) / 2)
                  | Left \<Rightarrow> 0
                  | Right \<Rightarrow> w - targetWidth);
             y = (case position of
                    Center \<Rightarrow> jsRound (real_of_int (h - targetHeight) / 2)
                  | Top \<Rightarrow> 0
                  | Bottom \<Rightarrow> h - targetHeight
                  | Left \<Rightarrow> jsRound (real_of_int (h - targetHeight) / 2)
                  | Right \<Rightarrow> jsRound (real_of_int (h - targetHeight) / 2))
         in Some (x, y, targetWidth, targetHeight)))"

section \<open>Request signatures (utils/security.ts)\<close>

text \<open>
  The signature primitive (HMAC-SHA256, rendered in hexadecimal) and the serialisation of
  the query parameters belong to the platform; they are parameters of the model.
\<close>

record Platform =
  generateSignature :: "string \<Rightarrow> string \<Rightarrow> string"
  serialize :: "SearchParams \<Rightarrow> string"

definition verifySignature :: "Platform \<Rightarrow> SearchParams \<Rightarrow> string \<Rightarrow> bool" where
  "verifySignature pf sp secret =
     (let token = get sp ''token'' in
      if \<not> truthyStr token then False
      else
        (let params = delete sp ''token'';
             paramsString = serialize pf params;
             expectedSignature = generateSignature pf paramsString secret
         in the token = expectedSignature))"

datatype signature_error = InvalidOrMissingSignature

definition checkSignature :: "Platform \<Rightarrow> SearchParams \<Rightarrow> string option \<Rightarrow> signature_error + unit" where
  "checkSignature pf sp signingSecret =
     (if \<not> truthyStr signingSecret then Inr ()
      else if \<not> verifySignature pf sp (the signingSecret) then Inl InvalidOrMissingSignature
      else Inr ())"

section \<open>Responses (utils/response.ts)\<close>

type_synonym bytes = "nat list"

text \<open>
  A \<^verbatim>\<open>Uint8Array\<close> is a view on a buffer: the buffer, the offset of its first element
  in the buffer, and the number of its elements. \<open>elements\<close> are the bytes the array
  holds; \<open>wholeBuffer b\<close> is \<^verbatim>\<open>new Uint8Array(b)\<close>, the view of all of \<open>b\<close>; and
  \<open>spansBuffer\<close> says that an array is such a view.
\<close>

record Uint8Array =
  buffer :: bytes
  byteOffset :: nat
  byteLength :: nat

definition elements :: "Uint8Array \<Rightarrow> bytes" where
  "elements a = take (byteLength a) (drop (byteOffset a) (buffer a))"

definition wholeBuffer :: "bytes \<Rightarrow> Uint8Array" where
  "wholeBuffer b = \<lparr> buffer = b, byteOffset = 0, byteLength = length b \<rparr>"

definition spansBuffer :: "Uint8Array \<Rightarrow> bool" where
  "spansBuffer a = (byteOffset a = 0 \<and> byteLength a = length (buffer a))"

datatype Body = ImageBytes bytes | ErrorJson string nat

record Response =
  status :: nat
  contentType :: string
  cacheControl :: "string option"
  body :: Body

text \<open>
  \<^verbatim>\<open>imageResponse\<close> with its default options (one year, immutable). The body is
  \<^verbatim>\<open>imageData.buffer\<close>, the whole buffer under the array.
\<close>

definition imageResponse :: "Uint8Array \<Rightarrow> ImageFormat \<Rightarrow> Response" where
  "imageResponse imageData fmt =
     \<lparr> status = 200, contentType = getMimeType fmt,
       cacheControl = Some (joinWith '', '' [''public'', ''max-age=31536000'', ''immutable'']),
       body = ImageBytes (buffer imageData) \<rparr>"

definition errorResponse :: "string \<Rightarrow> nat \<Rightarrow> Response" where
  "errorResponse message st =
     \<lparr> status = st, contentType = ''application/json'', cacheControl = None,
       body = ErrorJson message st \<rparr>"

definition methodNotAllowed :: Response where
  "methodNotAllowed = errorResponse ''Method not allowed. Only GET requests are supported.'' 405"

definition badRequest :: "string \<Rightarrow> Response" where
  "badRequest message = errorResponse message 400"

definition notFound :: "string \<Rightarrow> Response" where
  "notFound resource = errorResponse (''Resource not found: '' @ resource) 404"

definition internalError :: "string \<Rightarrow> Response" where
  "internalError message = errorResponse message 500"

definition forbidden :: "string \<Rightarrow> Response" where
  "forbidden message = errorResponse message 403"

section \<open>The request handler (index.ts)\<close>

text \<open>The message of each validation error, as the source builds it.\<close>

definition errorMessage :: "error \<Rightarrow> string" where
  "errorMessage e =
     (case e of
        PathTraversal \<Rightarrow> ''Invalid path: path traversal detected''
      | EmptyPath \<Rightarrow> ''Invalid path: path cannot be empty''
      | MissingPath \<Rightarrow> ''Missing required parameter: path''
      | InvalidNumber v \<Rightarrow> ''Invalid number: '' @ v
      | OutOfRange v mn mx \<Rightarrow>
          ''Number out of range: '' @ v @ '' (min: '' @ showInt mn @ '', max: '' @ showInt mx @ '')''
      | InvalidFit v \<Rightarrow>
          ''Invalid fit mode: '' @ v @ ''. Allowed values: cover, contain, fill''
      | InvalidFormat v \<Rightarrow> ''Invalid format: '' @ v @ ''. Allowed values: jpeg, png''
      | InvalidCrop v \<Rightarrow>
          ''Invalid crop position: '' @ v @ ''. Allowed values: center, top, bottom, left, right''
      | InvalidBackground v \<Rightarrow>
          ''Invalid background color: '' @ v @ ''. Expected 6-digit hex (e.g., ffffff)'')"

text \<open>
  An awaited call either yields a value or throws. The storage service and the transform
  engine are collaborators of the handler: what they answer is given by the environment.
  A storage answer is the pair of \<^verbatim>\<open>data\<close> and \<^verbatim>\<open>error\<close>, the data being the
  content of the blob; the handler reads it with
  \<^verbatim>\<open>new Uint8Array(await data.arrayBuffer())\<close>. The transform engine takes and returns
  arrays.
\<close>

datatype 'a awaited = Fulfilled 'a | Rejected string

record Env =
  signingSecret :: "string option"
  cacheBucket :: string
  envLimits :: ValidationLimits
  platform :: Platform
  storageDownload :: "string \<Rightarrow> string \<Rightarrow> (bytes option \<times> string option) awaited"
  storageUpload :: "string \<Rightarrow> string \<Rightarrow> Uint8Array \<Rightarrow> string \<Rightarrow> string option awaited"
  transformImage ::
    "Uint8Array \<Rightarrow> TransformConfig \<Rightarrow> ImageFormat \<Rightarrow> (Uint8Array \<times> ImageFormat) awaited"

record Request =
  httpMethod :: string
  searchParams :: SearchParams

text \<open>One constructor for each console message (durations left out).\<close>

datatype LogEntry =
    SignatureFailed
  | ValidationFailed string
  | ProcessingRequest TransformConfig
  | CacheKeyIs string
  | CacheHit
  | CompletedCached
  | CacheMiss
  | CacheBypassed
  | DownloadingOriginal string
  | OriginDownloadFailed
  | Downloaded nat
  | Transforming
  | TransformationComplete nat
  | Uploading
  | UploadFailed string
  | UploadSucceeded
  | UploadError string
  | CompletedProcessed
  | UnhandledError string

text \<open>\<^verbatim>\<open>error.message || "An unexpected error occurred"\<close>.\<close>

definition unhandled :: "string \<Rightarrow> Response" where
  "unhandled message =
     internalError (if message \<noteq> [] then message else ''An unexpected error occurred'')"

text \<open>
  The upload block: its \<^verbatim>\<open>try\<close> has no \<^verbatim>\<open>return\<close> and its \<^verbatim>\<open>catch\<close> does not
  rethrow, so what it contributes is its console messages.
\<close>

definition cacheWrite :: "Env \<Rightarrow> string \<Rightarrow> Uint8Array \<Rightarrow> ImageFormat \<Rightarrow> LogEntry list" where
  "cacheWrite env cacheKey transformedData outputFormat =
     Uploading #
     (case storageUpload env (cacheBucket env) cacheKey transformedData
             (''image/'' @ formatName outputFormat) of
        Fulfilled None \<Rightarrow> [UploadSucceeded]
      | Fulfilled (Some uploadError) \<Rightarrow> [UploadFailed uploadError]
      | Rejected e \<Rightarrow> [UploadError e])"

text \<open>From the download of the original to the response.\<close>

definition processOriginal :: "Env \<Rightarrow> TransformConfig \<Rightarrow> string \<Rightarrow> Response \<times> LogEntry list" where
  "processOriginal env config cacheKey =
     (case storageDownload env (bucket config) (path config) of
        Rejected e \<Rightarrow> (unhandled e, [DownloadingOriginal (bucket config), UnhandledError e])
      | Fulfilled (originData, originError) \<Rightarrow>
          if originError \<noteq> None \<or> originData = None then
            (notFound (bucket config @ ''/'' @ path config),
             [DownloadingOriginal (bucket config), OriginDownloadFailed])
          else
            (let originBytes = wholeBuffer (the originData);
                 originalFormat = inferFormatFromPath (path config);
                 logs = [DownloadingOriginal (bucket config), Downloaded (byteLength originBytes),
                         Transforming]
             in case transformImage env originBytes config originalFormat of
                  Rejected e \<Rightarrow> (unhandled e, logs @ [UnhandledError e])
                | Fulfilled (transformedData, outputFormat) \<Rightarrow>
                    (imageResponse transformedData outputFormat,
                     logs @ [TransformationComplete (byteLength transformedData)]
                       @ cacheWrite env cacheKey transformedData outputFormat
                       @ [CompletedProcessed])))"

definition withLogs :: "LogEntry list \<Rightarrow> Response \<times> LogEntry list \<Rightarrow> Response \<times> LogEntry list" where
  "withLogs pre r = (fst r, pre @ snd r)"

definition handler :: "Env \<Rightarrow> Request \<Rightarrow> Response \<times> LogEntry list" where
  "handler env req =
     (if httpMethod req \<noteq> ''GET'' then (methodNotAllowed, [])
      else case checkSignature (platform env) (searchParams req) (signingSecret env) of
        Inl e \<Rightarrow> (forbidden ''Invalid or missing signature'', [SignatureFailed])
      | Inr u \<Rightarrow>
          (case parseQueryParams (searchParams req) (envLimits env) of
             Inl e \<Rightarrow> (badRequest (errorMessage e), [ValidationFailed (errorMessage e)])
           | Inr config \<Rightarrow>
               (let cacheKey = buildCacheKey config;
                    pre = [ProcessingRequest config, CacheKeyIs cacheKey]
                in if \<not> noCache config then
                     (case storageDownload env (cacheBucket env) cacheKey of
                        Rejected e \<Rightarrow>
                          withLogs (pre @ [CacheMiss]) (processOriginal env config cacheKey)
                      | Fulfilled (cachedData, cacheError) \<Rightarrow>
                          if cacheError = None \<and> cachedData \<noteq> None then
                            (imageResponse (wholeBuffer (the cachedData)) (outputFormatOf config),
                             pre @ [CacheHit, CompletedCached])
                          else withLogs pre (processOriginal env config cacheKey))
                   else withLogs (pre @ [CacheBypassed]) (processOriginal env config cacheKey))))"

section \<open>A sample deployment\<close>

text \<open>
  The limits the handler uses when no environment variable is set, and a small environment
  and request on which the definitions above can be run: one original, an empty cache, a
  cache bucket that refuses every upload.
\<close>

definition defaultLimits :: ValidationLimits where
  "defaultLimits = \<lparr> maxWidth = 2000, maxHeight = 2000, defaultQuality = 80,
                      defaultBucket = ''images'' \<rparr>"

definition sampleEnv :: Env where
  "sampleEnv =
     \<lparr> signingSecret = None, cacheBucket = ''images-cache'', envLimits = defaultLimits,
       platform = \<lparr> generateSignature = (\<lambda>params secret. secret @ params),
                    serialize = (\<lambda>sp. concat (map (\<lambda>(n, v). n @ ''='' @ v @ ''&'') sp)) \<rparr>,
       storageDownload = (\<lambda>b k. if b = ''images'' \<and> k = ''test.jpg''
                                 then Fulfilled (Some [1, 2, 3], None)
                                 else Fulfilled (None, Some ''Object not found'')),
       storageUpload = (\<lambda>b k d t. Rejected ''storage unavailable''),
       transformImage = (\<lambda>d c f. Fulfilled (wholeBuffer (rev (elements d)), f)) \<rparr>"

definition sampleRequest :: Request where
  "sampleRequest = \<lparr> httpMethod = ''GET'', searchParams = [(''path'', ''test.jpg''), (''w'', ''400'')] \<rparr>"

section \<open>Auxiliary notions for the cache key\<close>

text \<open>
  For the proofs about the key: a part with its separator, present or not; the rank of the
  tag a string starts with; and what the key appends to the path without its extension.
\<close>

definition seg :: "bool \<Rightarrow> string \<Rightarrow> string \<Rightarrow> string" where
  "seg p t v = (if p then ''__'' @ t @ ''='' @ v else [])"

definition tagRank :: "string \<Rightarrow> nat" where
  "tagRank s =
     (if prefix ''__w='' s then 1 else if prefix ''__h='' s then 2
      else if prefix ''__fit='' s then 3 else if prefix ''__fmt='' s then 4
      else if prefix ''__q='' s then 5 else if prefix ''__bg='' s then 6
      else if prefix ''__crop='' s then 7 else if prefix ''.'' s then 8 else 0)"

definition keySuffix :: "TransformConfig \<Rightarrow> string" where
  "keySuffix c =
     seg (truthyNum (width c)) ''w'' (showInt (the (width c))) @
     seg (truthyNum (height c)) ''h'' (showInt (the (height c))) @
     seg (fit c \<noteq> Cover \<and> (truthyNum (width c) \<or> truthyNum (height c))) ''fit'' (fitName (fit c)) @
     seg (format c \<noteq> None \<and> format c \<noteq> Some (inferFormatFromPath (path c))) ''fmt''
       (formatName (the (format c))) @
     seg (quality c \<noteq> 80) ''q'' (showInt (quality c)) @
     seg (truthyStr (background c)) ''bg'' (the (background c)) @
     seg (crop c \<noteq> Center \<and> (truthyNum (width c) \<or> truthyNum (height c))) ''crop''
       (cropName (crop c)) @
     ''.'' @ getExtensionFromFormat (outputFormatOf c)"

section \<open>Path sanitisation\<close>

lemma includesStr_iff: "includesStr s sub \<longleftrightarrow> (\<exists>ps ss. s = ps @ sub @ ss)"
proof (induction s)
  case Nil
  then show ?case by auto
next
  case (Cons x xs)
  show ?case
  proof
    assume "includesStr (x # xs) sub"
    then consider "prefix sub (x # xs)" | "includesStr xs sub" by auto
    then show "\<exists>ps ss. x # xs = ps @ sub @ ss"
    proof cases
      case 1
      then obtain ss where "x # xs = sub @ ss" by (auto simp: prefix_def)
      then have "x # xs = [] @ sub @ ss" by simp
      then show ?thesis by blast
    next
      case 2
      with Cons.IH obtain ps ss where "xs = ps @ sub @ ss" by blast
      then have "x # xs = (x # ps) @ sub @ ss" by simp
      then show ?thesis by blast
    qed
  next
    assume "\<exists>ps ss. x # xs = ps @ sub @ ss"
    then obtain ps ss where e: "x # xs = ps @ sub @ ss" by blast
    show "includesStr (x # xs) sub"
    proof (cases ps)
      case Nil
      with e have "prefix sub (x # xs)" by (simp add: prefix_def)
      then show ?thesis by simp
    next
      case (Cons p ps')
      with e have "xs = ps' @ sub @ ss" by simp
      with Cons.IH have "includesStr xs sub" by blast
      then show ?thesis by simp
    qed
  qed
qed

lemma rev_dropWhile_rev_prefix: "prefix (rev (dropWhile P (rev d))) d"
proof -
  have "rev (dropWhile P (rev d)) @ rev (takeWhile P (rev d)) =
        rev (takeWhile P (rev d) @ dropWhile P (rev d))"
    by (simp only: rev_append)
  also have "\<dots> = d" by simp
  finally have "d = rev (dropWhile P (rev d)) @ rev (takeWhile P (rev d))" by simp
  then show ?thesis by (rule prefixI)
qed

lemma dropWhile_not_head: "\<not> prefix [c] (dropWhile (\<lambda>x. x = c) s)"
  by (induction s) auto

lemma stripSlashes_no_leading: "\<not> startsWith (stripSlashes s) ''/''"
proof
  assume "startsWith (stripSlashes s) ''/''"
  then have "prefix ''/'' (stripSlashes s)" by (simp add: startsWith_def)
  moreover have "prefix (stripSlashes s) (dropWhile (\<lambda>c. c = CHR ''/'') s)"
    unfolding stripSlashes_def by (rule rev_dropWhile_rev_prefix)
  ultimately have "prefix ''/'' (dropWhile (\<lambda>c. c = CHR ''/'') s)"
    by (rule prefix_order.order_trans)
  then show False using dropWhile_not_head[of "CHR ''/''" s] by simp
qed

lemmas sanitize_eval = sanitizePath_def stripSlashes_def trim_def isWhiteSpace_def startsWith_def

text \<open>
  Claim C7, the example \<^verbatim>\<open>"/abs/path"\<close>: the leading slash is trimmed before the
  checks run, so the path is returned as \<^verbatim>\<open>"abs/path"\<close> and not rejected.
\<close>

theorem sanitizePath_abs_path_accepted: "sanitizePath ''/abs/path'' = Inr ''abs/path''"
  by (simp add: sanitize_eval)

text \<open>
  Claim C7, as the code has it: \<^verbatim>\<open>"../../etc/passwd"\<close> and the empty string are
  rejected, \<^verbatim>\<open>"products/shoe.jpg"\<close> is returned unchanged, and for every input the
  result is decided on the string left after trimming whitespace and surrounding slashes:
  rejected when it contains \<^verbatim>\<open>..\<close> anywhere, rejected when it is empty, returned
  otherwise. That string never starts with a slash, so no input is rejected for being
  absolute.
\<close>

theorem sanitizePath_rules:
  "sanitizePath ''../../etc/passwd'' = Inl PathTraversal
   \<and> sanitizePath '''' = Inl EmptyPath
   \<and> sanitizePath ''products/shoe.jpg'' = Inr ''products/shoe.jpg''
   \<and> sanitizePath p =
       (if \<exists>ps ss. stripSlashes (trim p) = ps @ ''..'' @ ss then Inl PathTraversal
        else if stripSlashes (trim p) = [] then Inl EmptyPath
        else Inr (stripSlashes (trim p)))
   \<and> \<not> startsWith (stripSlashes (trim p)) ''/''"
proof -
  have 1: "sanitizePath ''../../etc/passwd'' = Inl PathTraversal"
    by (simp add: sanitize_eval)
  have 2: "sanitizePath '''' = Inl EmptyPath"
    by (simp add: sanitize_eval)
  have 3: "sanitizePath ''products/shoe.jpg'' = Inr ''products/shoe.jpg''"
    by (simp add: sanitize_eval)
  have 5: "\<not> startsWith (stripSlashes (trim p)) ''/''"
    by (rule stripSlashes_no_leading)
  have 4: "sanitizePath p =
       (if \<exists>ps ss. stripSlashes (trim p) = ps @ ''..'' @ ss then Inl PathTraversal
        else if stripSlashes (trim p) = [] then Inl EmptyPath
        else Inr (stripSlashes (trim p)))"
    using 5 by (simp add: sanitizePath_def Let_def includesStr_iff)
  from 1 2 3 4 5 show ?thesis by blast
qed

theorem sanitizePath_rules_witness:
  "sanitizePath '' /a//b.png/ '' = Inr ''a//b.png'' \<and> sanitizePath ''a/..b'' = Inl PathTraversal
   \<and> sanitizePath ''//'' = Inl EmptyPath \<and> sanitizePath [CHR 0xA0] = Inl EmptyPath
   \<and> sanitizePath (CHR 0xA0 # ''a.jpg'' @ [CHR 0xA0]) = Inr ''a.jpg''"
proof -
  have n: "sanitizePath [CHR 0xA0] = Inl EmptyPath"
    "sanitizePath (CHR 0xA0 # ''a.jpg'' @ [CHR 0xA0]) = Inr ''a.jpg''"
    by (simp_all add: sanitize_eval)
  have o: "sanitizePath '' /a//b.png/ '' = Inr ''a//b.png''
      \<and> sanitizePath ''a/..b'' = Inl PathTraversal \<and> sanitizePath ''//'' = Inl EmptyPath"
    using sanitizePath_rules[of "'' /a//b.png/ ''"] sanitizePath_rules[of "''a/..b''"]
      sanitizePath_rules[of "''//''"]
    by (simp add: sanitize_eval)
  from o n show ?thesis by simp
qed


section \<open>Integer parameters\<close>

lemma of_char_digitChar: "d < 10 \<Longrightarrow> (of_char (digitChar d) :: nat) = 48 + d"
  by (simp add: digitChar_def)

lemma isDigit_digitChar: "d < 10 \<Longrightarrow> isDigit (digitChar d)"
  by (simp add: isDigit_def of_char_digitChar)

lemma digitVal_digitChar: "d < 10 \<Longrightarrow> digitVal (digitChar d) = d"
  by (simp add: digitVal_def of_char_digitChar)

lemma showNat_digits: "list_all isDigit (showNat n)"
proof (induction n rule: showNat.induct)
  case (1 n)
  show ?case
  proof (cases "n < 10")
    case True
    then show ?thesis by (simp add: showNat.simps[of n] isDigit_digitChar)
  next
    case False
    with 1 have "list_all isDigit (showNat (n div 10))" by simp
    moreover have "isDigit (digitChar (n mod 10))" by (simp add: isDigit_digitChar)
    ultimately show ?thesis using False by (simp add: showNat.simps[of n])
  qed
qed

lemma showNat_nonempty: "showNat n \<noteq> []"
  by (simp add: showNat.simps[of n])

lemma readDigits_snoc: "readDigits (ds @ [c]) = 10 * readDigits ds + digitVal c"
  by (simp add: readDigits_def)

lemma readDigits_showNat: "readDigits (showNat n) = n"
proof (induction n rule: showNat.induct)
  case (1 n)
  show ?case
  proof (cases "n < 10")
    case True
    then show ?thesis by (simp add: showNat.simps[of n] readDigits_def digitVal_digitChar)
  next
    case False
    with 1 have "readDigits (showNat (n div 10)) = n div 10" by simp
    then show ?thesis using False
      by (simp add: showNat.simps[of n] readDigits_snoc digitVal_digitChar)
  qed
qed

lemma digit_not_space: "isDigit c \<Longrightarrow> \<not> isWhiteSpace c"
  by (auto simp: isDigit_def isWhiteSpace_def)

lemma digit_not_sign: "isDigit c \<Longrightarrow> c \<noteq> CHR ''-'' \<and> c \<noteq> CHR ''+''"
  by (auto simp: isDigit_def)

lemma takeWhile_all: "list_all P xs \<Longrightarrow> takeWhile P xs = xs"
  by (induction xs) auto

lemma parseInt10_digits:
  assumes "list_all isDigit ds" "ds \<noteq> []"
  shows "parseInt10 ds = Some (int (readDigits ds))"
proof -
  from assms obtain c cs where ds: "ds = c # cs" by (cases ds) auto
  with assms have c: "isDigit c" by simp
  then have "\<not> isWhiteSpace c" "c \<noteq> CHR ''-''" "c \<noteq> CHR ''+''"
    using digit_not_space digit_not_sign by blast+
  moreover have "takeWhile isDigit ds = ds" by (rule takeWhile_all[OF assms(1)])
  ultimately show ?thesis using assms(2)
    by (simp add: parseInt10_def Let_def ds del: takeWhile_eq_all_conv)
qed

lemma parseInt10_minus_digits:
  assumes "list_all isDigit ds" "ds \<noteq> []"
  shows "parseInt10 (CHR ''-'' # ds) = Some (- int (readDigits ds))"
proof -
  have "takeWhile isDigit ds = ds" by (rule takeWhile_all[OF assms(1)])
  then show ?thesis using assms(2)
    by (simp add: parseInt10_def Let_def isWhiteSpace_def del: takeWhile_eq_all_conv)
qed

lemma parseInt10_showInt: "parseInt10 (showInt n) = Some n"
proof (cases "n < 0")
  case True
  then show ?thesis
    using parseInt10_minus_digits[OF showNat_digits showNat_nonempty, of "nat (- n)"]
    by (simp add: showInt_def readDigits_showNat)
next
  case False
  then show ?thesis
    using parseInt10_digits[OF showNat_digits showNat_nonempty, of "nat n"]
    by (simp add: showInt_def readDigits_showNat)
qed

lemma set_tl_subset: "set (tl xs) \<subseteq> set xs"
  by (cases xs) auto

lemma parseInt10_no_digit:
  assumes "\<forall>c\<in>set s. \<not> isDigit c"
  shows "parseInt10 s = None"
proof -
  let ?s1 = "dropWhile isWhiteSpace s"
  let ?s2 = "if ?s1 \<noteq> [] \<and> (hd ?s1 = CHR ''-'' \<or> hd ?s1 = CHR ''+'') then tl ?s1 else ?s1"
  have "set ?s1 \<subseteq> set s" by (rule set_dropWhileD[THEN subsetI])
  moreover have "set (tl ?s1) \<subseteq> set ?s1" by (rule set_tl_subset)
  ultimately have "set ?s2 \<subseteq> set s" by auto
  with assms have "\<forall>c\<in>set ?s2. \<not> isDigit c" by blast
  then have "takeWhile isDigit ?s2 = []" by (cases ?s2) auto
  then show ?thesis by (simp add: parseInt10_def Let_def)
qed

text \<open>
  Claim C6 as stated fails on two kinds of input: the empty string is not a number (the
  source's own parser gives \<^verbatim>\<open>NaN\<close> for it) and is accepted as an absent parameter,
  and \<^verbatim>\<open>"12abc"\<close> is accepted as 12.
\<close>

theorem parseIntParam_lenient_counterexample:
  "parseInt10 '''' = None \<and> parseIntParam (Some '''') 1 2000 = Inr None
   \<and> parseIntParam (Some ''12abc'') 1 2000 = Inr (Some 12)"
  by (simp add: parseIntParam_def parseInt10_def isWhiteSpace_def isDigit_def readDigits_def
      digitVal_def)

lemma parseIntParam_Inl_fails:
  assumes "parseIntParam (get sp ''w'') 1 (maxWidth limits) = Inl e
           \<or> parseIntParam (get sp ''h'') 1 (maxHeight limits) = Inl e
           \<or> parseIntParam (get sp ''q'') 1 100 = Inl e"
  shows "isl (parseQueryParams sp limits)"
  using assms
  by (auto simp: parseQueryParams_def Let_def split: sum.splits)

lemma parseIntParam_Some_range:
  "parseIntParam v mn mx = Inr (Some n) \<Longrightarrow> mn \<le> n \<and> n \<le> mx"
  by (auto simp: parseIntParam_def split: option.splits if_splits)

text \<open>
  Claim C6, as the code has it. For every non-empty raw value: a value without any digit,
  and more generally a value for which \<^verbatim>\<open>parseInt\<close> finds no leading integer, fails
  with the invalid-number error; a value whose leading integer lies outside the declared
  range fails with the out-of-range error and is never clamped, and inside the range it is
  returned as it is; the decimal rendering of any integer \<open>k\<close> is accepted exactly when
  \<open>k\<close> is in range; and a failure on \<^verbatim>\<open>w\<close>, \<^verbatim>\<open>h\<close> or \<^verbatim>\<open>q\<close> makes the whole
  validator fail.
\<close>

theorem parseIntParam_strict:
  assumes "s \<noteq> []"
  shows "((\<forall>c\<in>set s. \<not> isDigit c) \<longrightarrow> parseIntParam (Some s) mn mx = Inl (InvalidNumber s))
    \<and> (parseInt10 s = None \<longrightarrow> parseIntParam (Some s) mn mx = Inl (InvalidNumber s))
    \<and> (\<forall>n. parseInt10 s = Some n \<longrightarrow>
          parseIntParam (Some s) mn mx =
            (if mn \<le> n \<and> n \<le> mx then Inr (Some n) else Inl (OutOfRange s mn mx)))
    \<and> parseIntParam (Some (showInt k)) mn mx =
          (if mn \<le> k \<and> k \<le> mx then Inr (Some k) else Inl (OutOfRange (showInt k) mn mx))
    \<and> (\<forall>e. (get sp ''w'' = Some s \<and> parseIntParam (Some s) 1 (maxWidth limits) = Inl e)
           \<or> (get sp ''h'' = Some s \<and> parseIntParam (Some s) 1 (maxHeight limits) = Inl e)
           \<or> (get sp ''q'' = Some s \<and> parseIntParam (Some s) 1 100 = Inl e)
          \<longrightarrow> isl (parseQueryParams sp limits))"
proof -
  have a: "parseInt10 s = None \<longrightarrow> parseIntParam (Some s) mn mx = Inl (InvalidNumber s)"
    using assms by (simp add: parseIntParam_def)
  have b: "(\<forall>c\<in>set s. \<not> isDigit c) \<longrightarrow> parseIntParam (Some s) mn mx = Inl (InvalidNumber s)"
  proof
    assume "\<forall>c\<in>set s. \<not> isDigit c"
    then have "parseInt10 s = None" by (rule parseInt10_no_digit)
    with a show "parseIntParam (Some s) mn mx = Inl (InvalidNumber s)" by simp
  qed
  have c: "\<forall>n. parseInt10 s = Some n \<longrightarrow>
          parseIntParam (Some s) mn mx =
            (if mn \<le> n \<and> n \<le> mx then Inr (Some n) else Inl (OutOfRange s mn mx))"
    using assms by (auto simp: parseIntParam_def)
  have "showInt k \<noteq> []"
    by (simp add: showInt_def showNat_nonempty)
  then have d: "parseIntParam (Some (showInt k)) mn mx =
          (if mn \<le> k \<and> k \<le> mx then Inr (Some k) else Inl (OutOfRange (showInt k) mn mx))"
    by (auto simp: parseIntParam_def parseInt10_showInt)
  have e: "\<forall>e. (get sp ''w'' = Some s \<and> parseIntParam (Some s) 1 (maxWidth limits) = Inl e)
           \<or> (get sp ''h'' = Some s \<and> parseIntParam (Some s) 1 (maxHeight limits) = Inl e)
           \<or> (get sp ''q'' = Some s \<and> parseIntParam (Some s) 1 100 = Inl e)
          \<longrightarrow> isl (parseQueryParams sp limits)"
    using parseIntParam_Inl_fails[of sp limits] by metis
  from a b c d e show ?thesis by simp
qed

theorem parseIntParam_strict_witness:
  "parseIntParam (Some ''abc'') 1 2000 = Inl (InvalidNumber ''abc'')
   \<and> parseIntParam (Some ''5000'') 1 2000 = Inl (OutOfRange ''5000'' 1 2000)
   \<and> parseIntParam (Some ''0'') 1 100 = Inl (OutOfRange ''0'' 1 100)
   \<and> parseIntParam (Some ''400'') 1 2000 = Inr (Some 400)
   \<and> parseIntParam (Some (CHR 0xA0 # ''42'')) 1 2000 = Inr (Some 42)"
proof -
  have ne: "''abc'' \<noteq> []" "''5000'' \<noteq> []" "''0'' \<noteq> []" "''400'' \<noteq> []"
    "CHR 0xA0 # ''42'' \<noteq> []" by simp_all
  have nd: "\<forall>c\<in>set ''abc''. \<not> isDigit c" by (simp add: isDigit_def)
  have p: "parseInt10 ''5000'' = Some 5000" "parseInt10 ''0'' = Some 0"
    "parseInt10 ''400'' = Some 400" "parseInt10 (CHR 0xA0 # ''42'') = Some 42"
    by (simp_all add: parseInt10_def isWhiteSpace_def isDigit_def readDigits_def digitVal_def)
  show ?thesis
    using parseIntParam_strict[OF ne(1), of 1 2000] nd
      parseIntParam_strict[OF ne(2), of 1 2000] parseIntParam_strict[OF ne(3), of 1 100]
      parseIntParam_strict[OF ne(4), of 1 2000] parseIntParam_strict[OF ne(5), of 1 2000] p
    by simp
qed

section \<open>Empty values\<close>

lemma get_delete: "get (delete sp k) n = (if n = k then None else get sp n)"
  by (induction sp) (auto simp: get_def delete_def)

lemma empty_as_absent:
  "parseIntParam (Some []) mn mx = parseIntParam None mn mx"
  "parseFitMode (Some []) = parseFitMode None"
  "parseFormat (Some []) = parseFormat None"
  "parseCropPosition (Some []) = parseCropPosition None"
  "parseBackground (Some []) = parseBackground None"
  "truthyStr (Some []) = truthyStr None"
  by (simp_all add: parseIntParam_def parseFitMode_def parseFormat_def parseCropPosition_def
      parseBackground_def truthyStr_def)

lemma parseQueryParams_cong:
  assumes "\<And>n. n \<in> set [''w'', ''h'', ''q'', ''fit'', ''format'', ''crop'', ''bg'']
             \<Longrightarrow> get sp' n = get sp n \<or> (get sp n = Some [] \<and> get sp' n = None)"
    and "get sp' ''bucket'' = get sp ''bucket''
           \<or> (get sp ''bucket'' = Some [] \<and> get sp' ''bucket'' = None)"
    and "get sp' ''path'' = get sp ''path''" "get sp' ''no_cache'' = get sp ''no_cache''"
  shows "parseQueryParams sp' limits = parseQueryParams sp limits"
proof -
  have w: "parseIntParam (get sp' ''w'') 1 (maxWidth limits) = parseIntParam (get sp ''w'') 1 (maxWidth limits)"
    using assms(1)[of "''w''"] by (auto simp: empty_as_absent)
  have h: "parseIntParam (get sp' ''h'') 1 (maxHeight limits) = parseIntParam (get sp ''h'') 1 (maxHeight limits)"
    using assms(1)[of "''h''"] by (auto simp: empty_as_absent)
  have q: "parseIntParam (get sp' ''q'') 1 100 = parseIntParam (get sp ''q'') 1 100"
    using assms(1)[of "''q''"] by (auto simp: empty_as_absent)
  have f: "parseFitMode (get sp' ''fit'') = parseFitMode (get sp ''fit'')"
    using assms(1)[of "''fit''"] by (auto simp: empty_as_absent)
  have fm: "parseFormat (get sp' ''format'') = parseFormat (get sp ''format'')"
    using assms(1)[of "''format''"] by (auto simp: empty_as_absent)
  have c: "parseCropPosition (get sp' ''crop'') = parseCropPosition (get sp ''crop'')"
    using assms(1)[of "''crop''"] by (auto simp: empty_as_absent)
  have b: "parseBackground (get sp' ''bg'') = parseBackground (get sp ''bg'')"
    using assms(1)[of "''bg''"] by (auto simp: empty_as_absent)
  have bk: "(if truthyStr (get sp' ''bucket'') then the (get sp' ''bucket'') else defaultBucket limits)
          = (if truthyStr (get sp ''bucket'') then the (get sp ''bucket'') else defaultBucket limits)"
    using assms(2) by (auto simp: truthyStr_def)
  show ?thesis
    unfolding parseQueryParams_def w h q f fm c b bk assms(3) assms(4) ..
qed


lemma parseQueryParams_fields:
  assumes "parseQueryParams sp limits = Inr c"
  shows "parseIntParam (get sp ''w'') 1 (maxWidth limits) = Inr (width c)"
    "parseIntParam (get sp ''h'') 1 (maxHeight limits) = Inr (height c)"
    "parseFitMode (get sp ''fit'') = Inr (fit c)"
    "parseFormat (get sp ''format'') = Inr (format c)"
    "\<exists>q. parseIntParam (get sp ''q'') 1 100 = Inr q
          \<and> quality c = (if truthyNum q then the q else defaultQuality limits)"
    "parseBackground (get sp ''bg'') = Inr (background c)"
    "parseCropPosition (get sp ''crop'') = Inr (crop c)"
    "bucket c = (if truthyStr (get sp ''bucket'') then the (get sp ''bucket'')
                 else defaultBucket limits)"
    "sanitizePath (the (get sp ''path'')) = Inr (path c)"
    "truthyStr (get sp ''path'')"
    "noCache c = (get sp ''no_cache'' = Some ''1'')"
  using assms
  by (auto simp: parseQueryParams_def Let_def split: sum.splits if_splits)

text \<open>
  Claim C10: for each of the parameters \<^verbatim>\<open>w\<close>, \<^verbatim>\<open>h\<close>, \<^verbatim>\<open>q\<close>, \<^verbatim>\<open>fit\<close>,
  \<^verbatim>\<open>format\<close>, \<^verbatim>\<open>crop\<close>, \<^verbatim>\<open>bg\<close> and \<^verbatim>\<open>bucket\<close>, a request in which the
  parameter is present with an empty value is validated exactly as the request without that
  parameter; where the validation succeeds the field holds its default (absent width,
  height, format and background, fit \<^verbatim>\<open>cover\<close>, crop \<^verbatim>\<open>center\<close>, the configured
  default quality and bucket), and none of the field parsers raises an error on the empty
  value.
\<close>

theorem empty_value_as_absent:
  assumes "k \<in> set [''w'', ''h'', ''q'', ''fit'', ''format'', ''crop'', ''bg'', ''bucket'']"
    and "get sp k = Some []"
  shows "parseQueryParams sp limits = parseQueryParams (delete sp k) limits
    \<and> (\<forall>c. parseQueryParams sp limits = Inr c \<longrightarrow>
          (k = ''w'' \<longrightarrow> width c = None) \<and> (k = ''h'' \<longrightarrow> height c = None)
        \<and> (k = ''q'' \<longrightarrow> quality c = defaultQuality limits)
        \<and> (k = ''fit'' \<longrightarrow> fit c = Cover) \<and> (k = ''format'' \<longrightarrow> format c = None)
        \<and> (k = ''crop'' \<longrightarrow> crop c = Center) \<and> (k = ''bg'' \<longrightarrow> background c = None)
        \<and> (k = ''bucket'' \<longrightarrow> bucket c = defaultBucket limits))
    \<and> parseIntParam (Some []) mn mx = Inr None \<and> parseFitMode (Some []) = Inr Cover
    \<and> parseFormat (Some []) = Inr None \<and> parseCropPosition (Some []) = Inr Center
    \<and> parseBackground (Some []) = Inr None"
proof -
  have 1: "parseQueryParams (delete sp k) limits = parseQueryParams sp limits"
  proof (rule parseQueryParams_cong)
    fix n assume "n \<in> set [''w'', ''h'', ''q'', ''fit'', ''format'', ''crop'', ''bg'']"
    show "get (delete sp k) n = get sp n \<or> (get sp n = Some [] \<and> get (delete sp k) n = None)"
      using assms(2) by (simp add: get_delete)
  next
    show "get (delete sp k) ''bucket'' = get sp ''bucket''
          \<or> (get sp ''bucket'' = Some [] \<and> get (delete sp k) ''bucket'' = None)"
      using assms(2) by (simp add: get_delete)
  next
    show "get (delete sp k) ''path'' = get sp ''path''"
      using assms(1) by (auto simp: get_delete)
  next
    show "get (delete sp k) ''no_cache'' = get sp ''no_cache''"
      using assms(1) by (auto simp: get_delete)
  qed
  have 2: "\<forall>c. parseQueryParams sp limits = Inr c \<longrightarrow>
          (k = ''w'' \<longrightarrow> width c = None) \<and> (k = ''h'' \<longrightarrow> height c = None)
        \<and> (k = ''q'' \<longrightarrow> quality c = defaultQuality limits)
        \<and> (k = ''fit'' \<longrightarrow> fit c = Cover) \<and> (k = ''format'' \<longrightarrow> format c = None)
        \<and> (k = ''crop'' \<longrightarrow> crop c = Center) \<and> (k = ''bg'' \<longrightarrow> background c = None)
        \<and> (k = ''bucket'' \<longrightarrow> bucket c = defaultBucket limits)"
  proof (intro allI impI conjI)
    fix c assume p: "parseQueryParams sp limits = Inr c"
    note f = parseQueryParams_fields[OF p]
    { assume "k = ''w''" with assms(2) f(1) show "width c = None"
        by (simp add: parseIntParam_def) }
    { assume "k = ''h''" with assms(2) f(2) show "height c = None"
        by (simp add: parseIntParam_def) }
    { assume "k = ''q''" with assms(2) f(5) show "quality c = defaultQuality limits"
        by (auto simp: parseIntParam_def truthyNum_def) }
    { assume "k = ''fit''" with assms(2) f(3) show "fit c = Cover"
        by (simp add: parseFitMode_def) }
    { assume "k = ''format''" with assms(2) f(4) show "format c = None"
        by (simp add: parseFormat_def) }
    { assume "k = ''crop''" with assms(2) f(7) show "crop c = Center"
        by (simp add: parseCropPosition_def) }
    { assume "k = ''bg''" with assms(2) f(6) show "background c = None"
        by (simp add: parseBackground_def) }
    { assume "k = ''bucket''" with assms(2) f(8) show "bucket c = defaultBucket limits"
        by (simp add: truthyStr_def) }
  qed
  have 3: "parseIntParam (Some []) mn mx = Inr None" "parseFitMode (Some []) = Inr Cover"
    "parseFormat (Some []) = Inr None" "parseCropPosition (Some []) = Inr Center"
    "parseBackground (Some []) = Inr None"
    by (simp_all add: parseIntParam_def parseFitMode_def parseFormat_def parseCropPosition_def
      parseBackground_def)
  from 1 2 3 show ?thesis by simp
qed

lemmas parse_eval = parseQueryParams_def get_def delete_def truthyStr_def truthyNum_def
  sanitizePath_def stripSlashes_def trim_def isWhiteSpace_def startsWith_def
  parseIntParam_def parseFitMode_def parseFormat_def parseCropPosition_def parseBackground_def
  parseInt10_def isDigit_def readDigits_def digitVal_def isHexDigit_def

theorem empty_value_as_absent_witness:
  "parseQueryParams [(''path'', ''a.jpg''), (''q'', ''''), (''w'', ''300'')]
      \<lparr> maxWidth = 2000, maxHeight = 2000, defaultQuality = 75, defaultBucket = ''images'' \<rparr>
   = parseQueryParams [(''path'', ''a.jpg''), (''w'', ''300'')]
      \<lparr> maxWidth = 2000, maxHeight = 2000, defaultQuality = 75, defaultBucket = ''images'' \<rparr>
   \<and> parseQueryParams [(''path'', ''a.jpg''), (''q'', ''''), (''w'', ''300'')]
      \<lparr> maxWidth = 2000, maxHeight = 2000, defaultQuality = 75, defaultBucket = ''images'' \<rparr>
   = Inr \<lparr> bucket = ''images'', path = ''a.jpg'', width = Some 300, height = None, fit = Cover,
           format = None, quality = 75, background = None, crop = Center, noCache = False \<rparr>"
proof -
  have k: "''q'' \<in> set [''w'', ''h'', ''q'', ''fit'', ''format'', ''crop'', ''bg'', ''bucket'']"
    by simp
  have g: "get [(''path'', ''a.jpg''), (''q'', ''''), (''w'', ''300'')] ''q'' = Some []"
    by (simp add: get_def)
  show ?thesis
    using empty_value_as_absent[OF k g,
        of "\<lparr> maxWidth = 2000, maxHeight = 2000, defaultQuality = 75, defaultBucket = ''images'' \<rparr>"]
    by (simp add: parse_eval)
qed

section \<open>Signature enforcement\<close>

lemma status_simps:
  "status (imageResponse d f) = 200" "status (errorResponse m st) = st"
  "status methodNotAllowed = 405" "status (badRequest m) = 400" "status (notFound r) = 404"
  "status (internalError m) = 500" "status (forbidden m) = 403" "status (unhandled m) = 500"
  by (simp_all add: imageResponse_def errorResponse_def methodNotAllowed_def badRequest_def
      notFound_def internalError_def forbidden_def unhandled_def)

lemma processOriginal_status:
  "status (fst (processOriginal env config key)) \<in> {200, 404, 500}"
  by (auto simp: processOriginal_def status_simps Let_def split: awaited.splits prod.splits)

lemma handler_signature_failure:
  assumes "httpMethod req = ''GET''"
    and "checkSignature (platform env) (searchParams req) (signingSecret env) = Inl e"
  shows "handler env req = (forbidden ''Invalid or missing signature'', [SignatureFailed])"
  using assms by (simp add: handler_def)

lemma handler_not_forbidden:
  assumes "checkSignature (platform env) (searchParams req) (signingSecret env) = Inr ()"
  shows "status (fst (handler env req)) \<noteq> 403"
proof -
  have "status (fst (processOriginal env config key)) \<noteq> 403" for config key
    using processOriginal_status[of env config key] by auto
  then show ?thesis using assms
    by (auto simp: handler_def status_simps withLogs_def Let_def
        split: sum.splits awaited.splits prod.splits)
qed

text \<open>
  Claim C8: without a signing secret \<^verbatim>\<open>checkSignature\<close> passes on every input, and the
  handler never answers 403; with a secret (a non-empty string, the source testing it with
  \<^verbatim>\<open>!signingSecret\<close>) and the token absent or empty, verification is false,
  \<^verbatim>\<open>checkSignature\<close> throws, and the handler answers a \<^verbatim>\<open>GET\<close> request with 403.
\<close>

theorem checkSignature_fail_closed:
  "checkSignature pf sp None = Inr ()
   \<and> (signingSecret env = None \<longrightarrow> status (fst (handler env req)) \<noteq> 403)
   \<and> (secret \<noteq> [] \<and> (get sp ''token'' = None \<or> get sp ''token'' = Some []) \<longrightarrow>
        \<not> verifySignature pf sp secret
        \<and> checkSignature pf sp (Some secret) = Inl InvalidOrMissingSignature)
   \<and> (httpMethod req = ''GET'' \<and> signingSecret env = Some secret \<and> secret \<noteq> []
        \<and> get (searchParams req) ''token'' = None \<longrightarrow>
        handler env req = (forbidden ''Invalid or missing signature'', [SignatureFailed])
        \<and> status (fst (handler env req)) = 403)"
proof -
  have a: "checkSignature pf sp None = Inr ()" for pf sp
    by (simp add: checkSignature_def truthyStr_def)
  have b: "signingSecret env = None \<longrightarrow> status (fst (handler env req)) \<noteq> 403"
    using handler_not_forbidden[of env req] a by auto
  have c: "\<not> verifySignature pf sp secret
        \<and> checkSignature pf sp (Some secret) = Inl InvalidOrMissingSignature"
    if "secret \<noteq> []" "get sp ''token'' = None \<or> get sp ''token'' = Some []" for pf sp
    using that by (auto simp: checkSignature_def verifySignature_def truthyStr_def)
  have d: "handler env req = (forbidden ''Invalid or missing signature'', [SignatureFailed])
        \<and> status (fst (handler env req)) = 403"
    if "httpMethod req = ''GET''" "signingSecret env = Some secret" "secret \<noteq> []"
      "get (searchParams req) ''token'' = None"
  proof -
    have "checkSignature (platform env) (searchParams req) (signingSecret env)
          = Inl InvalidOrMissingSignature"
      using c[of "searchParams req" "platform env"] that by simp
    from handler_signature_failure[OF that(1) this] show ?thesis
      by (simp add: status_simps)
  qed
  from a b c d show ?thesis by blast
qed

theorem checkSignature_fail_closed_witness:
  "checkSignature \<lparr> generateSignature = (\<lambda>p s. s @ p), serialize = (\<lambda>sp. concat (map fst sp)) \<rparr>
      [(''path'', ''a.jpg''), (''w'', ''100'')] (Some ''s3cret'') = Inl InvalidOrMissingSignature
   \<and> checkSignature \<lparr> generateSignature = (\<lambda>p s. s @ p), serialize = (\<lambda>sp. concat (map fst sp)) \<rparr>
      [(''path'', ''a.jpg''), (''w'', ''100'')] None = Inr ()"
proof -
  have "''s3cret'' \<noteq> [] \<and> (get [(''path'', ''a.jpg''), (''w'', ''100'')] ''token'' = None
      \<or> get [(''path'', ''a.jpg''), (''w'', ''100'')] ''token'' = Some [])"
    by (simp add: get_def)
  then show ?thesis
    using checkSignature_fail_closed[of
        "\<lparr> generateSignature = (\<lambda>p s. s @ p), serialize = (\<lambda>sp. concat (map fst sp)) \<rparr>"
        "[(''path'', ''a.jpg''), (''w'', ''100'')]" _ _ "''s3cret''"]
    by blast
qed


section \<open>Cache write\<close>

lemma processOriginal_upload_irrelevant:
  "fst (processOriginal (env\<lparr>storageUpload := u\<rparr>) config key) = fst (processOriginal env config key)"
  by (simp add: processOriginal_def Let_def split: awaited.splits prod.splits)

lemma elements_spansBuffer: "spansBuffer a \<Longrightarrow> elements a = buffer a"
  by (simp add: spansBuffer_def elements_def)

lemma wholeBuffer_simps:
  "elements (wholeBuffer b) = b" "spansBuffer (wholeBuffer b)" "buffer (wholeBuffer b) = b"
  "byteLength (wholeBuffer b) = length b"
  by (simp_all add: wholeBuffer_def elements_def spansBuffer_def)

lemma processOriginal_success:
  assumes "storageDownload env (bucket config) (path config) = Fulfilled (Some originData, None)"
    and "transformImage env (wholeBuffer originData) config (inferFormatFromPath (path config))
           = Fulfilled (transformedData, outputFormat)"
  shows "processOriginal env config key =
           (imageResponse transformedData outputFormat,
            [DownloadingOriginal (bucket config), Downloaded (length originData), Transforming,
             TransformationComplete (byteLength transformedData)]
              @ cacheWrite env key transformedData outputFormat @ [CompletedProcessed])"
  using assms by (simp add: processOriginal_def wholeBuffer_simps)

lemma handler_miss:
  assumes "httpMethod req = ''GET''"
    and "checkSignature (platform env) (searchParams req) (signingSecret env) = Inr ()"
    and "parseQueryParams (searchParams req) (envLimits env) = Inr config"
    and "noCache config \<or> (\<forall>d. storageDownload env (cacheBucket env) (buildCacheKey config)
                                   \<noteq> Fulfilled (Some d, None))"
  shows "\<exists>pre. handler env req = withLogs pre (processOriginal env config (buildCacheKey config))
          \<and> pre \<in> {[ProcessingRequest config, CacheKeyIs (buildCacheKey config)],
                    [ProcessingRequest config, CacheKeyIs (buildCacheKey config), CacheMiss],
                    [ProcessingRequest config, CacheKeyIs (buildCacheKey config), CacheBypassed]}"
  using assms
  by (auto simp: handler_def Let_def split: awaited.splits prod.splits)

text \<open>
  Claim C9: take a \<^verbatim>\<open>GET\<close> request that passes the signature check and the
  validation, misses or bypasses the cache, finds its original and is transformed to the
  array \<open>transformedData\<close>. Then whatever the upload to the cache does (it may succeed,
  answer with an error, or throw), the response is the image response of
  \<open>transformedData\<close>, with status 200; its body is the buffer under that array, which is
  exactly the transformed bytes when the array spans its buffer, as an array allocated for
  the encoded image does; and the upload shows only in the console messages of the upload
  block, the messages before it being those of the run with any other upload.
\<close>

theorem cache_write_failure_non_fatal:
  assumes "httpMethod req = ''GET''"
    and "checkSignature (platform env) (searchParams req) (signingSecret env) = Inr ()"
    and "parseQueryParams (searchParams req) (envLimits env) = Inr config"
    and "noCache config \<or> (\<forall>d. storageDownload env (cacheBucket env) (buildCacheKey config)
                                   \<noteq> Fulfilled (Some d, None))"
    and "storageDownload env (bucket config) (path config) = Fulfilled (Some originData, None)"
    and "transformImage env (wholeBuffer originData) config (inferFormatFromPath (path config))
           = Fulfilled (transformedData, outputFormat)"
  shows "fst (handler (env\<lparr>storageUpload := u\<rparr>) req) = imageResponse transformedData outputFormat
    \<and> status (fst (handler (env\<lparr>storageUpload := u\<rparr>) req)) = 200
    \<and> body (fst (handler (env\<lparr>storageUpload := u\<rparr>) req)) = ImageBytes (buffer transformedData)
    \<and> (spansBuffer transformedData \<longrightarrow>
         body (fst (handler (env\<lparr>storageUpload := u\<rparr>) req))
           = ImageBytes (elements transformedData))
    \<and> (\<exists>pre. snd (handler (env\<lparr>storageUpload := u\<rparr>) req) =
           pre @ cacheWrite (env\<lparr>storageUpload := u\<rparr>) (buildCacheKey config)
                   transformedData outputFormat @ [CompletedProcessed]
         \<and> pre = take (length pre) (snd (handler env req)))"
proof -
  let ?env = "env\<lparr>storageUpload := u\<rparr>"
  let ?key = "buildCacheKey config"
  let ?mid = "[DownloadingOriginal (bucket config), Downloaded (length originData), Transforming,
             TransformationComplete (byteLength transformedData)]"
  from handler_miss[OF assms(1-4)] obtain pre where
    h: "handler env req = withLogs pre (processOriginal env config ?key)" by blast
  have h': "handler ?env req = withLogs pre (processOriginal ?env config ?key)"
    using h assms(1-4)
    by (auto simp: handler_def Let_def withLogs_def processOriginal_upload_irrelevant
        split: awaited.splits prod.splits if_splits)
  have p: "processOriginal env config ?key =
      (imageResponse transformedData outputFormat,
       ?mid @ cacheWrite env ?key transformedData outputFormat @ [CompletedProcessed])"
    by (rule processOriginal_success[OF assms(5,6)])
  have p': "processOriginal ?env config ?key =
      (imageResponse transformedData outputFormat,
       ?mid @ cacheWrite ?env ?key transformedData outputFormat @ [CompletedProcessed])"
    using assms(5,6) by (intro processOriginal_success) simp_all
  have r: "fst (handler ?env req) = imageResponse transformedData outputFormat"
    by (simp add: h' p' withLogs_def)
  have s: "status (fst (handler ?env req)) = 200"
    unfolding r by (rule status_simps(1))
  have b: "body (fst (handler ?env req)) = ImageBytes (buffer transformedData)"
    unfolding r by (simp add: imageResponse_def)
  have b': "spansBuffer transformedData \<longrightarrow>
      body (fst (handler ?env req)) = ImageBytes (elements transformedData)"
    using b by (simp add: elements_spansBuffer)
  have l: "snd (handler ?env req) =
      (pre @ ?mid) @ cacheWrite ?env ?key transformedData outputFormat @ [CompletedProcessed]"
    by (simp add: h' p' withLogs_def)
  have l0: "snd (handler env req) =
      (pre @ ?mid) @ cacheWrite env ?key transformedData outputFormat @ [CompletedProcessed]"
    by (simp add: h p withLogs_def)
  have t: "pre @ ?mid = take (length (pre @ ?mid)) (snd (handler env req))"
    unfolding l0 by simp
  from l t have "\<exists>pre. snd (handler ?env req) =
           pre @ cacheWrite ?env ?key transformedData outputFormat @ [CompletedProcessed]
         \<and> pre = take (length pre) (snd (handler env req))"
    by blast
  with r s b b' show ?thesis by simp
qed

lemma sample_parse:
  "parseQueryParams (searchParams sampleRequest) (envLimits sampleEnv) =
     Inr \<lparr> bucket = ''images'', path = ''test.jpg'', width = Some 400, height = None,
           fit = Cover, format = None, quality = 80, background = None, crop = Center,
           noCache = False \<rparr>"
  by (simp add: sampleRequest_def sampleEnv_def defaultLimits_def parse_eval)

theorem cache_write_failure_non_fatal_witness:
  "fst (handler (sampleEnv\<lparr>storageUpload := (\<lambda>b k d t. Fulfilled (Some ''quota exceeded''))\<rparr>)
         sampleRequest) = imageResponse (wholeBuffer [3, 2, 1]) Jpeg
   \<and> body (fst (handler (sampleEnv\<lparr>storageUpload := (\<lambda>b k d t. Fulfilled (Some ''quota exceeded''))\<rparr>)
         sampleRequest)) = ImageBytes [3, 2, 1]
   \<and> body (fst (handler sampleEnv sampleRequest)) = ImageBytes [3, 2, 1]"
proof -
  let ?c = "\<lparr> bucket = ''images'', path = ''test.jpg'', width = Some 400, height = None,
           fit = Cover, format = None, quality = 80, background = None, crop = Center,
           noCache = False \<rparr>"
  have 1: "httpMethod sampleRequest = ''GET''" by (simp add: sampleRequest_def)
  have 2: "checkSignature (platform sampleEnv) (searchParams sampleRequest)
             (signingSecret sampleEnv) = Inr ()"
    by (simp add: sampleEnv_def checkSignature_def truthyStr_def)
  have 4: "noCache ?c \<or> (\<forall>d. storageDownload sampleEnv (cacheBucket sampleEnv) (buildCacheKey ?c)
                                   \<noteq> Fulfilled (Some d, None))"
    by (simp add: sampleEnv_def)
  have 5: "storageDownload sampleEnv (bucket ?c) (path ?c) = Fulfilled (Some [1, 2, 3], None)"
    by (simp add: sampleEnv_def)
  have i: "inferFormatFromPath ''test.jpg'' = Jpeg"
    by (simp add: inferFormatFromPath_def lastSegment_def toLowerCase_def lowerChar_def)
  have 6: "transformImage sampleEnv (wholeBuffer [1, 2, 3]) ?c (inferFormatFromPath (path ?c))
           = Fulfilled (wholeBuffer [3, 2, 1], Jpeg)"
    by (simp add: sampleEnv_def i wholeBuffer_simps)
  have 7: "spansBuffer (wholeBuffer [3, 2, 1])" by (rule wholeBuffer_simps(2))
  have e: "sampleEnv\<lparr>storageUpload := storageUpload sampleEnv\<rparr> = sampleEnv" by simp
  show ?thesis
    using cache_write_failure_non_fatal[OF 1 2 sample_parse 4 5 6,
        of "\<lambda>b k d t. Fulfilled (Some ''quota exceeded'')"]
      cache_write_failure_non_fatal[OF 1 2 sample_parse 4 5 6, of "storageUpload sampleEnv"] 7
    by (simp add: e wholeBuffer_simps imageResponse_def)
qed

section \<open>Cache keys\<close>

lemmas key_eval = buildCacheKey_def transformParts_def outputFormatOf_def stripExtension_def
  inferFormatFromPath_def lastSegment_def toLowerCase_def lowerChar_def
  getExtensionFromFormat_def fitName_def formatName_def cropName_def truthyNum_def truthyStr_def

lemma showInt_examples: "showInt 90 = ''90''" "showInt 400 = ''400''" "showInt 100 = ''100''"
  by code_simp+

text \<open>
  Claim C2 as stated fails when the configured default quality is not 80. Under a default
  of 90 a request without \<^verbatim>\<open>q\<close> gets quality 90, the default, and its key carries
  \<^verbatim>\<open>q=90\<close>; a request with \<^verbatim>\<open>q=80\<close>, which is not the default, gets a key
  without a quality part.
\<close>

theorem quality_part_hard_coded_counterexample:
  "parseQueryParams [(''path'', ''a.jpg'')]
      \<lparr> maxWidth = 2000, maxHeight = 2000, defaultQuality = 90, defaultBucket = ''images'' \<rparr>
     = Inr \<lparr> bucket = ''images'', path = ''a.jpg'', width = None, height = None, fit = Cover,
             format = None, quality = 90, background = None, crop = Center, noCache = False \<rparr>
   \<and> transformParts \<lparr> bucket = ''images'', path = ''a.jpg'', width = None, height = None,
         fit = Cover, format = None, quality = 90, background = None, crop = Center,
         noCache = False \<rparr> = [''q=90'']
   \<and> buildCacheKey \<lparr> bucket = ''images'', path = ''a.jpg'', width = None, height = None,
         fit = Cover, format = None, quality = 90, background = None, crop = Center,
         noCache = False \<rparr> = ''a__q=90.jpg''
   \<and> parseQueryParams [(''path'', ''a.jpg''), (''q'', ''80'')]
      \<lparr> maxWidth = 2000, maxHeight = 2000, defaultQuality = 90, defaultBucket = ''images'' \<rparr>
     = Inr \<lparr> bucket = ''images'', path = ''a.jpg'', width = None, height = None, fit = Cover,
             format = None, quality = 80, background = None, crop = Center, noCache = False \<rparr>
   \<and> buildCacheKey \<lparr> bucket = ''images'', path = ''a.jpg'', width = None, height = None,
         fit = Cover, format = None, quality = 80, background = None, crop = Center,
         noCache = False \<rparr> = ''a.jpg''"
  by (simp add: parse_eval key_eval showInt_examples)

lemma quality_part_iff:
  "(''q='' @ showInt (quality c) \<in> set (transformParts c)) = (quality c \<noteq> 80)"
  by (simp add: transformParts_def)

lemma quality_part_unique:
  "p \<in> set (transformParts c) \<Longrightarrow> startsWith p ''q='' \<Longrightarrow> p = ''q='' @ showInt (quality c)"
  by (auto simp: transformParts_def startsWith_def split: if_splits)

text \<open>
  Claim C2, as the code has it: the parts of the key contain \<^verbatim>\<open>q=<quality>\<close> exactly
  when the quality differs from 80, the constant of the source; no other part starts with
  \<^verbatim>\<open>q=\<close>; and for a configuration built under limits whose default quality is 80
  this is exactly when the quality differs from the configured default.
\<close>

theorem quality_part_iff_not_80:
  "(''q='' @ showInt (quality c) \<in> set (transformParts c)) = (quality c \<noteq> 80)
   \<and> (\<forall>p\<in>set (transformParts c). startsWith p ''q='' \<longrightarrow> p = ''q='' @ showInt (quality c))
   \<and> (parseQueryParams sp limits = Inr c \<and> defaultQuality limits = 80 \<longrightarrow>
        (''q='' @ showInt (quality c) \<in> set (transformParts c))
          = (quality c \<noteq> defaultQuality limits))"
  using quality_part_iff[of c] quality_part_unique[of _ c] by auto

lemma joinWith_Cons: "joinWith sep (x # xs) = x @ concat (map (\<lambda>p. sep @ p) xs)"
  by (induction xs arbitrary: x) auto

lemma concat_map_if: "concat (map f (if b then [x] else [])) = (if b then f x else [])"
  by simp

lemma buildCacheKey_structure: "buildCacheKey c = stripExtension (path c) @ keySuffix c"
  unfolding buildCacheKey_def joinWith_Cons transformParts_def keySuffix_def seg_def map_append
    concat_append concat_map_if
  by simp

lemma fmt_part_resolved:
  "(format c \<noteq> None \<and> format c \<noteq> Some (inferFormatFromPath (path c)))
     = (outputFormatOf c \<noteq> inferFormatFromPath (path c))"
  "format c \<noteq> None \<Longrightarrow> the (format c) = outputFormatOf c"
  by (auto simp: outputFormatOf_def split: option.splits)

text \<open>
  Claim C3: two configurations with the same path that agree on width, height, fit,
  resolved output format (the requested one, or the one inferred from the path), quality,
  background and crop have the same cache key, whatever their bucket, their cache flag, and
  whether the format was requested or inferred.
\<close>

theorem same_resolved_same_key:
  assumes "path c1 = path c2" "width c1 = width c2" "height c1 = height c2" "fit c1 = fit c2"
    and "outputFormatOf c1 = outputFormatOf c2" "quality c1 = quality c2"
    and "background c1 = background c2" "crop c1 = crop c2"
  shows "buildCacheKey c1 = buildCacheKey c2"
proof -
  have f: "seg (format c \<noteq> None \<and> format c \<noteq> Some (inferFormatFromPath (path c))) ''fmt''
             (formatName (the (format c)))
         = seg (outputFormatOf c \<noteq> inferFormatFromPath (path c)) ''fmt''
             (formatName (outputFormatOf c))" for c
    using fmt_part_resolved[of c] by (auto simp: seg_def)
  have "keySuffix c1 = keySuffix c2"
    unfolding keySuffix_def f using assms by simp
  then show ?thesis using assms(1) by (simp add: buildCacheKey_structure)
qed

lemma showInt_inj: "showInt n = showInt m \<Longrightarrow> n = m"
  by (metis option.inject parseInt10_showInt)

lemma showInt_digits: "0 \<le> n \<Longrightarrow> list_all isDigit (showInt n)"
  by (simp add: showInt_def showNat_digits)

lemma takeWhile_append_stop:
  "list_all P v \<Longrightarrow> T \<noteq> [] \<Longrightarrow> \<not> P (hd T) \<Longrightarrow> takeWhile P (v @ T) = v"
  by (induction v) (auto simp: neq_Nil_conv)

lemma digits_cancel:
  assumes "list_all isDigit v" "list_all isDigit v'"
    and "T \<noteq> []" "\<not> isDigit (hd T)" "T' \<noteq> []" "\<not> isDigit (hd T')"
    and "v @ T = v' @ T'"
  shows "v = v' \<and> T = T'"
proof -
  have "v = takeWhile isDigit (v @ T)"
    using assms(1,3,4) by (simp add: takeWhile_append_stop)
  also have "\<dots> = takeWhile isDigit (v' @ T')" by (simp only: assms(7))
  also have "\<dots> = v'"
    using assms(2,5,6) by (simp add: takeWhile_append_stop)
  finally have "v = v'" .
  with assms(7) show ?thesis by simp
qed

lemma tagRank_pos: "0 < tagRank T \<Longrightarrow> T \<noteq> [] \<and> \<not> isDigit (hd T)"
  by (auto simp: tagRank_def isDigit_def prefix_def split: if_splits)

lemma tagRank_seg:
  "tagRank (seg p ''w'' v @ T) = (if p then 1 else tagRank T)"
  "tagRank (seg p ''h'' v @ T) = (if p then 2 else tagRank T)"
  "tagRank (seg p ''fit'' v @ T) = (if p then 3 else tagRank T)"
  "tagRank (seg p ''fmt'' v @ T) = (if p then 4 else tagRank T)"
  "tagRank (seg p ''q'' v @ T) = (if p then 5 else tagRank T)"
  "tagRank (seg p ''bg'' v @ T) = (if p then 6 else tagRank T)"
  "tagRank (seg p ''crop'' v @ T) = (if p then 7 else tagRank T)"
  "tagRank (''.'' @ e) = 8"
  by (simp_all add: seg_def tagRank_def)

lemma seg_layer:
  assumes eq: "seg p t v @ T = seg p' t v' @ T'"
    and r: "k < tagRank T" "k < tagRank T'"
    and tk: "\<And>x R. tagRank (seg True t x @ R) = k"
    and val: "p \<Longrightarrow> p' \<Longrightarrow> v @ T = v' @ T' \<Longrightarrow> v = v' \<and> T = T'"
  shows "p = p' \<and> (p \<longrightarrow> v = v') \<and> T = T'"
proof (cases p; cases p')
  assume "p" "p'"
  with eq have "v @ T = v' @ T'" by (simp add: seg_def)
  with val \<open>p\<close> \<open>p'\<close> show ?thesis by simp
next
  assume "p" "\<not> p'"
  with eq have "seg True t v @ T = T'" by (simp add: seg_def)
  with tk[of v T] r(2) show ?thesis by simp
next
  assume "\<not> p" "p'"
  with eq have "seg True t v' @ T' = T" by (simp add: seg_def)
  with tk[of v' T'] r(1) show ?thesis by simp
next
  assume "\<not> p" "\<not> p'"
  with eq show ?thesis by (simp add: seg_def)
qed

lemma fitName_cancel:
  "f \<noteq> Cover \<Longrightarrow> f' \<noteq> Cover \<Longrightarrow> fitName f @ T = fitName f' @ T' \<Longrightarrow> f = f' \<and> T = T'"
  by (cases f; cases f') (simp_all add: fitName_def)

lemma formatName_cancel:
  "formatName f @ T = formatName f' @ T' \<Longrightarrow> f = f' \<and> T = T'"
  by (cases f; cases f') (simp_all add: formatName_def)

lemma cropName_cancel:
  "p \<noteq> Center \<Longrightarrow> p' \<noteq> Center \<Longrightarrow> cropName p @ T = cropName p' @ T' \<Longrightarrow> p = p' \<and> T = T'"
  by (cases p; cases p') (simp_all add: cropName_def)

lemma extension_inj:
  "''.'' @ getExtensionFromFormat f = ''.'' @ getExtensionFromFormat f' \<Longrightarrow> f = f'"
  by (cases f; cases f') (simp_all add: getExtensionFromFormat_def)

lemma validConfig_fields:
  assumes "validConfig limits c"
  shows "truthyNum (width c) = (width c \<noteq> None)" "truthyNum (height c) = (height c \<noteq> None)"
    "truthyStr (background c) = (background c \<noteq> None)"
    "width c \<noteq> None \<Longrightarrow> 0 \<le> the (width c)" "height c \<noteq> None \<Longrightarrow> 0 \<le> the (height c)"
    "0 \<le> quality c" "background c \<noteq> None \<Longrightarrow> length (the (background c)) = 6"
  using assms
  by (auto simp: validConfig_def truthyNum_def truthyStr_def split: option.splits)

lemma name_inj:
  "fitName f = fitName f' \<Longrightarrow> f = f'"
  "cropName p = cropName p' \<Longrightarrow> p = p'"
  by (cases f; cases f'; simp add: fitName_def) (cases p; cases p'; simp add: cropName_def)

lemma keySuffix_inj:
  assumes v1: "validConfig l1 c1" and v2: "validConfig l2 c2"
    and eq: "keySuffix c1 = keySuffix c2"
  shows "width c1 = width c2 \<and> height c1 = height c2 \<and> outputFormatOf c1 = outputFormatOf c2
    \<and> quality c1 = quality c2 \<and> background c1 = background c2
    \<and> (width c1 \<noteq> None \<or> height c1 \<noteq> None \<longrightarrow> fit c1 = fit c2 \<and> crop c1 = crop c2)"
proof -
  define E where "E c = ''.'' @ getExtensionFromFormat (outputFormatOf c)" for c
  define C where "C c = seg (crop c \<noteq> Center \<and> (truthyNum (width c) \<or> truthyNum (height c)))
      ''crop'' (cropName (crop c)) @ E c" for c
  define B where "B c = seg (truthyStr (background c)) ''bg'' (the (background c)) @ C c" for c
  define Q where "Q c = seg (quality c \<noteq> 80) ''q'' (showInt (quality c)) @ B c" for c
  define M where "M c = seg (format c \<noteq> None \<and> format c \<noteq> Some (inferFormatFromPath (path c)))
      ''fmt'' (formatName (the (format c))) @ Q c" for c
  define F where "F c = seg (fit c \<noteq> Cover \<and> (truthyNum (width c) \<or> truthyNum (height c)))
      ''fit'' (fitName (fit c)) @ M c" for c
  define H where "H c = seg (truthyNum (height c)) ''h'' (showInt (the (height c))) @ F c" for c
  have K: "keySuffix c = seg (truthyNum (width c)) ''w'' (showInt (the (width c))) @ H c" for c
    by (simp add: keySuffix_def H_def F_def M_def Q_def B_def C_def E_def)
  have rE: "tagRank (E c) = 8" for c unfolding E_def by (rule tagRank_seg(8))
  have rC: "6 < tagRank (C c)" for c by (simp add: C_def tagRank_seg rE)
  have rB: "5 < tagRank (B c)" for c using rC[of c] by (simp add: B_def tagRank_seg)
  have rQ: "4 < tagRank (Q c)" for c using rB[of c] by (simp add: Q_def tagRank_seg)
  have rM: "3 < tagRank (M c)" for c using rQ[of c] by (simp add: M_def tagRank_seg)
  have rF: "2 < tagRank (F c)" for c using rM[of c] by (simp add: F_def tagRank_seg)
  have rH: "1 < tagRank (H c)" for c using rF[of c] by (simp add: H_def tagRank_seg)
  have stop: "k < tagRank T \<Longrightarrow> T \<noteq> [] \<and> \<not> isDigit (hd T)" for k T
    using tagRank_pos[of T] by simp
  note f1 = validConfig_fields[OF v1] and f2 = validConfig_fields[OF v2]

  \<comment> \<open>width\<close>
  from eq have "seg (truthyNum (width c1)) ''w'' (showInt (the (width c1))) @ H c1
      = seg (truthyNum (width c2)) ''w'' (showInt (the (width c2))) @ H c2"
    by (simp only: K)
  then have W: "truthyNum (width c1) = truthyNum (width c2)
      \<and> (truthyNum (width c1) \<longrightarrow> showInt (the (width c1)) = showInt (the (width c2)))
      \<and> H c1 = H c2"
  proof (rule seg_layer[where k = 1])
    show "1 < tagRank (H c1)" "1 < tagRank (H c2)" by (rule rH)+
    show "tagRank (seg True ''w'' x @ R) = 1" for x R by (simp add: tagRank_seg)
    assume "truthyNum (width c1)" "truthyNum (width c2)"
      and "showInt (the (width c1)) @ H c1 = showInt (the (width c2)) @ H c2"
    then show "showInt (the (width c1)) = showInt (the (width c2)) \<and> H c1 = H c2"
      using f1(1,4) f2(1,4) stop[OF rH[of c1]] stop[OF rH[of c2]]
      by (intro digits_cancel showInt_digits) simp_all
  qed
  then have w: "width c1 = width c2"
    using f1(1) f2(1) showInt_inj[of "the (width c1)" "the (width c2)"] by auto

  \<comment> \<open>height\<close>
  from W have "H c1 = H c2" by simp
  then have "seg (truthyNum (height c1)) ''h'' (showInt (the (height c1))) @ F c1
      = seg (truthyNum (height c2)) ''h'' (showInt (the (height c2))) @ F c2"
    unfolding H_def .
  then have Hh: "truthyNum (height c1) = truthyNum (height c2)
      \<and> (truthyNum (height c1) \<longrightarrow> showInt (the (height c1)) = showInt (the (height c2)))
      \<and> F c1 = F c2"
  proof (rule seg_layer[where k = 2])
    show "2 < tagRank (F c1)" "2 < tagRank (F c2)" by (rule rF)+
    show "tagRank (seg True ''h'' x @ R) = 2" for x R by (simp add: tagRank_seg)
    assume "truthyNum (height c1)" "truthyNum (height c2)"
      and "showInt (the (height c1)) @ F c1 = showInt (the (height c2)) @ F c2"
    then show "showInt (the (height c1)) = showInt (the (height c2)) \<and> F c1 = F c2"
      using f1(2,5) f2(2,5) stop[OF rF[of c1]] stop[OF rF[of c2]]
      by (intro digits_cancel showInt_digits) simp_all
  qed
  then have h: "height c1 = height c2"
    using f1(2) f2(2) showInt_inj[of "the (height c1)" "the (height c2)"] by auto

  \<comment> \<open>fit\<close>
  from Hh have "F c1 = F c2" by simp
  then have "seg (fit c1 \<noteq> Cover \<and> (truthyNum (width c1) \<or> truthyNum (height c1))) ''fit''
        (fitName (fit c1)) @ M c1
      = seg (fit c2 \<noteq> Cover \<and> (truthyNum (width c2) \<or> truthyNum (height c2))) ''fit''
        (fitName (fit c2)) @ M c2"
    unfolding F_def .
  then have Ff: "(fit c1 \<noteq> Cover \<and> (truthyNum (width c1) \<or> truthyNum (height c1)))
        = (fit c2 \<noteq> Cover \<and> (truthyNum (width c2) \<or> truthyNum (height c2)))
      \<and> (fit c1 \<noteq> Cover \<and> (truthyNum (width c1) \<or> truthyNum (height c1))
           \<longrightarrow> fitName (fit c1) = fitName (fit c2))
      \<and> M c1 = M c2"
  proof (rule seg_layer[where k = 3])
    show "3 < tagRank (M c1)" "3 < tagRank (M c2)" by (rule rM)+
    show "tagRank (seg True ''fit'' x @ R) = 3" for x R by (simp add: tagRank_seg)
    assume "fit c1 \<noteq> Cover \<and> (truthyNum (width c1) \<or> truthyNum (height c1))"
      "fit c2 \<noteq> Cover \<and> (truthyNum (width c2) \<or> truthyNum (height c2))"
      and "fitName (fit c1) @ M c1 = fitName (fit c2) @ M c2"
    then show "fitName (fit c1) = fitName (fit c2) \<and> M c1 = M c2"
      using fitName_cancel[of "fit c1" "fit c2" "M c1" "M c2"] by simp
  qed
  then have f: "width c1 \<noteq> None \<or> height c1 \<noteq> None \<longrightarrow> fit c1 = fit c2"
    using f1(1,2) f2(1,2) w h name_inj(1)[of "fit c1" "fit c2"] by auto

  \<comment> \<open>format\<close>
  from Ff have "M c1 = M c2" by simp
  then have "seg (format c1 \<noteq> None \<and> format c1 \<noteq> Some (inferFormatFromPath (path c1))) ''fmt''
        (formatName (the (format c1))) @ Q c1
      = seg (format c2 \<noteq> None \<and> format c2 \<noteq> Some (inferFormatFromPath (path c2))) ''fmt''
        (formatName (the (format c2))) @ Q c2"
    unfolding M_def .
  then have "(format c1 \<noteq> None \<and> format c1 \<noteq> Some (inferFormatFromPath (path c1)))
        = (format c2 \<noteq> None \<and> format c2 \<noteq> Some (inferFormatFromPath (path c2)))
      \<and> (format c1 \<noteq> None \<and> format c1 \<noteq> Some (inferFormatFromPath (path c1))
           \<longrightarrow> formatName (the (format c1)) = formatName (the (format c2)))
      \<and> Q c1 = Q c2"
  proof (rule seg_layer[where k = 4])
    show "4 < tagRank (Q c1)" "4 < tagRank (Q c2)" by (rule rQ)+
    show "tagRank (seg True ''fmt'' x @ R) = 4" for x R by (simp add: tagRank_seg)
    assume "formatName (the (format c1)) @ Q c1 = formatName (the (format c2)) @ Q c2"
    then show "formatName (the (format c1)) = formatName (the (format c2)) \<and> Q c1 = Q c2"
      using formatName_cancel[of "the (format c1)" "Q c1" "the (format c2)" "Q c2"] by simp
  qed
  then have Mq: "Q c1 = Q c2" by simp

  \<comment> \<open>quality\<close>
  from Mq have "Q c1 = Q c2" by simp
  then have "seg (quality c1 \<noteq> 80) ''q'' (showInt (quality c1)) @ B c1
      = seg (quality c2 \<noteq> 80) ''q'' (showInt (quality c2)) @ B c2"
    unfolding Q_def .
  then have Qq: "(quality c1 \<noteq> 80) = (quality c2 \<noteq> 80)
      \<and> (quality c1 \<noteq> 80 \<longrightarrow> showInt (quality c1) = showInt (quality c2))
      \<and> B c1 = B c2"
  proof (rule seg_layer[where k = 5])
    show "5 < tagRank (B c1)" "5 < tagRank (B c2)" by (rule rB)+
    show "tagRank (seg True ''q'' x @ R) = 5" for x R by (simp add: tagRank_seg)
    assume "showInt (quality c1) @ B c1 = showInt (quality c2) @ B c2"
    then show "showInt (quality c1) = showInt (quality c2) \<and> B c1 = B c2"
      using f1(6) f2(6) stop[OF rB[of c1]] stop[OF rB[of c2]]
      by (intro digits_cancel showInt_digits) simp_all
  qed
  then have q: "quality c1 = quality c2"
    using showInt_inj[of "quality c1" "quality c2"] by auto

  \<comment> \<open>background\<close>
  from Qq have "B c1 = B c2" by simp
  then have "seg (truthyStr (background c1)) ''bg'' (the (background c1)) @ C c1
      = seg (truthyStr (background c2)) ''bg'' (the (background c2)) @ C c2"
    unfolding B_def .
  then have Bb: "truthyStr (background c1) = truthyStr (background c2)
      \<and> (truthyStr (background c1) \<longrightarrow> the (background c1) = the (background c2))
      \<and> C c1 = C c2"
  proof (rule seg_layer[where k = 6])
    show "6 < tagRank (C c1)" "6 < tagRank (C c2)" by (rule rC)+
    show "tagRank (seg True ''bg'' x @ R) = 6" for x R by (simp add: tagRank_seg)
    assume "truthyStr (background c1)" "truthyStr (background c2)"
      and "the (background c1) @ C c1 = the (background c2) @ C c2"
    then show "the (background c1) = the (background c2) \<and> C c1 = C c2"
      using f1(3,7) f2(3,7) by simp
  qed
  then have b: "background c1 = background c2"
    using f1(3) f2(3) by (auto simp: option.expand)

  \<comment> \<open>crop\<close>
  from Bb have "C c1 = C c2" by simp
  then have "seg (crop c1 \<noteq> Center \<and> (truthyNum (width c1) \<or> truthyNum (height c1))) ''crop''
        (cropName (crop c1)) @ E c1
      = seg (crop c2 \<noteq> Center \<and> (truthyNum (width c2) \<or> truthyNum (height c2))) ''crop''
        (cropName (crop c2)) @ E c2"
    unfolding C_def .
  then have Cc: "(crop c1 \<noteq> Center \<and> (truthyNum (width c1) \<or> truthyNum (height c1)))
        = (crop c2 \<noteq> Center \<and> (truthyNum (width c2) \<or> truthyNum (height c2)))
      \<and> (crop c1 \<noteq> Center \<and> (truthyNum (width c1) \<or> truthyNum (height c1))
           \<longrightarrow> cropName (crop c1) = cropName (crop c2))
      \<and> E c1 = E c2"
  proof (rule seg_layer[where k = 7])
    show "7 < tagRank (E c1)" "7 < tagRank (E c2)" by (simp_all add: rE)
    show "tagRank (seg True ''crop'' x @ R) = 7" for x R by (simp add: tagRank_seg)
    assume "crop c1 \<noteq> Center \<and> (truthyNum (width c1) \<or> truthyNum (height c1))"
      "crop c2 \<noteq> Center \<and> (truthyNum (width c2) \<or> truthyNum (height c2))"
      and "cropName (crop c1) @ E c1 = cropName (crop c2) @ E c2"
    then show "cropName (crop c1) = cropName (crop c2) \<and> E c1 = E c2"
      using cropName_cancel[of "crop c1" "crop c2" "E c1" "E c2"] by simp
  qed
  then have c: "width c1 \<noteq> None \<or> height c1 \<noteq> None \<longrightarrow> crop c1 = crop c2"
    using f1(1,2) f2(1,2) w h name_inj(2)[of "crop c1" "crop c2"] by auto

  \<comment> \<open>extension\<close>
  from Cc have "E c1 = E c2" by simp
  then have e: "outputFormatOf c1 = outputFormatOf c2"
    unfolding E_def by (rule extension_inj)
  from w h e q b f c show ?thesis by simp
qed

lemma sanitizePath_Inr:
  "sanitizePath p = Inr s \<Longrightarrow> s \<noteq> [] \<and> \<not> includesStr s ''..'' \<and> \<not> startsWith s ''/''"
  by (auto simp: sanitizePath_def Let_def split: if_splits)

lemma parseBackground_Inr:
  "parseBackground v = Inr (Some b) \<Longrightarrow> length b = 6 \<and> list_all isHexDigit b"
  by (auto simp: parseBackground_def split: option.splits if_splits)

lemma parseQueryParams_valid:
  assumes p: "parseQueryParams sp limits = Inr c"
    and d: "1 \<le> defaultQuality limits" "defaultQuality limits \<le> 100"
  shows "validConfig limits c"
proof -
  note f = parseQueryParams_fields[OF p]
  have w: "case width c of None \<Rightarrow> True | Some w \<Rightarrow> 1 \<le> w \<and> w \<le> maxWidth limits"
    using parseIntParam_Some_range[of "get sp ''w''" 1 "maxWidth limits"] f(1)
    by (auto split: option.splits)
  have h: "case height c of None \<Rightarrow> True | Some h \<Rightarrow> 1 \<le> h \<and> h \<le> maxHeight limits"
    using parseIntParam_Some_range[of "get sp ''h''" 1 "maxHeight limits"] f(2)
    by (auto split: option.splits)
  from f(5) obtain q where q: "parseIntParam (get sp ''q'') 1 100 = Inr q"
    "quality c = (if truthyNum q then the q else defaultQuality limits)" by blast
  have ql: "1 \<le> quality c \<and> quality c \<le> 100"
    using parseIntParam_Some_range[of "get sp ''q''" 1 100] q d
    by (cases q) (auto simp: truthyNum_def)
  have b: "case background c of None \<Rightarrow> True | Some b \<Rightarrow> length b = 6 \<and> list_all isHexDigit b"
    using parseBackground_Inr[of "get sp ''bg''"] f(6) by (auto split: option.splits)
  have pa: "path c \<noteq> [] \<and> \<not> includesStr (path c) ''..'' \<and> \<not> startsWith (path c) ''/''"
    using sanitizePath_Inr[OF f(9)] .
  from w h ql b pa show ?thesis by (simp add: validConfig_def)
qed

text \<open>
  Claim C1 as stated fails: the requests \<^verbatim>\<open>path=a.jpg\<close> and
  \<^verbatim>\<open>path=a.jpg&crop=top\<close> give valid configurations that differ in their crop and
  have the same key, the crop being written only when a dimension is given.
\<close>

theorem crop_without_dimensions_counterexample:
  "validConfig defaultLimits
     \<lparr> bucket = ''images'', path = ''a.jpg'', width = None, height = None, fit = Cover,
       format = None, quality = 80, background = None, crop = Center, noCache = False \<rparr>
   \<and> validConfig defaultLimits
     \<lparr> bucket = ''images'', path = ''a.jpg'', width = None, height = None, fit = Cover,
       format = None, quality = 80, background = None, crop = Top, noCache = False \<rparr>
   \<and> parseQueryParams [(''path'', ''a.jpg'')] defaultLimits
     = Inr \<lparr> bucket = ''images'', path = ''a.jpg'', width = None, height = None, fit = Cover,
             format = None, quality = 80, background = None, crop = Center, noCache = False \<rparr>
   \<and> parseQueryParams [(''path'', ''a.jpg''), (''crop'', ''top'')] defaultLimits
     = Inr \<lparr> bucket = ''images'', path = ''a.jpg'', width = None, height = None, fit = Cover,
             format = None, quality = 80, background = None, crop = Top, noCache = False \<rparr>
   \<and> buildCacheKey \<lparr> bucket = ''images'', path = ''a.jpg'', width = None, height = None,
         fit = Cover, format = None, quality = 80, background = None, crop = Center,
         noCache = False \<rparr> = ''a.jpg''
   \<and> buildCacheKey \<lparr> bucket = ''images'', path = ''a.jpg'', width = None, height = None,
         fit = Cover, format = None, quality = 80, background = None, crop = Top,
         noCache = False \<rparr> = ''a.jpg''"
  by (simp add: defaultLimits_def parse_eval key_eval validConfig_def)

text \<open>
  Claim C1, as the code has it: two valid configurations with the same path have different
  keys whenever they differ in width, height, resolved output format, quality or
  background, or, at least one dimension being given, in fit or crop.
\<close>

theorem different_resolved_different_key:
  assumes "validConfig l1 c1" "validConfig l2 c2" "path c1 = path c2"
    and "width c1 \<noteq> width c2 \<or> height c1 \<noteq> height c2
         \<or> outputFormatOf c1 \<noteq> outputFormatOf c2 \<or> quality c1 \<noteq> quality c2
         \<or> background c1 \<noteq> background c2
         \<or> ((width c1 \<noteq> None \<or> height c1 \<noteq> None) \<and> (fit c1 \<noteq> fit c2 \<or> crop c1 \<noteq> crop c2))"
  shows "buildCacheKey c1 \<noteq> buildCacheKey c2"
proof
  assume "buildCacheKey c1 = buildCacheKey c2"
  then have "keySuffix c1 = keySuffix c2"
    using assms(3) by (simp add: buildCacheKey_structure)
  from keySuffix_inj[OF assms(1,2) this] assms(4) show False by blast
qed

lemma sample_valid:
  "validConfig defaultLimits
     \<lparr> bucket = ''images'', path = ''test.jpg'', width = Some w, height = None, fit = f,
       format = None, quality = 80, background = None, crop = Center, noCache = False \<rparr>
   = (1 \<le> w \<and> w \<le> 2000)"
  by (simp add: validConfig_def defaultLimits_def startsWith_def)

theorem different_resolved_different_key_witness:
  "buildCacheKey \<lparr> bucket = ''images'', path = ''test.jpg'', width = Some 400, height = None,
       fit = Cover, format = None, quality = 80, background = None, crop = Center,
       noCache = False \<rparr>
   \<noteq> buildCacheKey \<lparr> bucket = ''images'', path = ''test.jpg'', width = Some 400, height = None,
       fit = Contain, format = None, quality = 80, background = None, crop = Center,
       noCache = False \<rparr>"
  by (rule different_resolved_different_key[where ?l1.0 = defaultLimits and ?l2.0 = defaultLimits])
    (simp_all add: sample_valid)

theorem same_resolved_same_key_witness:
  "buildCacheKey \<lparr> bucket = ''images'', path = ''test.jpg'', width = Some 400, height = None,
       fit = Cover, format = None, quality = 80, background = None, crop = Center,
       noCache = False \<rparr>
   = buildCacheKey \<lparr> bucket = ''other'', path = ''test.jpg'', width = Some 400, height = None,
       fit = Cover, format = Some Jpeg, quality = 80, background = None, crop = Center,
       noCache = True \<rparr>"
  by (rule same_resolved_same_key)
    (simp_all add: outputFormatOf_def inferFormatFromPath_def lastSegment_def toLowerCase_def
      lowerChar_def)

theorem quality_part_iff_not_80_witness:
  "''q=90'' \<in> set (transformParts \<lparr> bucket = ''images'', path = ''test.jpg'', width = None,
       height = None, fit = Cover, format = None, quality = 90, background = None,
       crop = Center, noCache = False \<rparr>)"
proof -
  have p: "parseQueryParams [(''path'', ''test.jpg''), (''q'', ''90'')] defaultLimits
       = Inr \<lparr> bucket = ''images'', path = ''test.jpg'', width = None,
       height = None, fit = Cover, format = None, quality = 90, background = None,
       crop = Center, noCache = False \<rparr> \<and> defaultQuality defaultLimits = 80"
    by (simp add: defaultLimits_def parse_eval)
  show ?thesis
    using quality_part_iff_not_80[of "\<lparr> bucket = ''images'', path = ''test.jpg'', width = None,
       height = None, fit = Cover, format = None, quality = 90, background = None,
       crop = Center, noCache = False \<rparr>" "[(''path'', ''test.jpg''), (''q'', ''90'')]" defaultLimits] p
    by (simp add: showInt_examples)
qed

section \<open>Geometry\<close>

lemma within_bounds:
  assumes "roundsWithin eps fl" "0 \<le> x"
  shows "x - x * eps \<le> fl x" "fl x \<le> x + x * eps"
proof -
  from assms(1) have "\<bar>fl x - x\<bar> \<le> \<bar>x\<bar> * eps" by (simp add: roundsWithin_def)
  with assms(2) have "\<bar>fl x - x\<bar> \<le> x * eps" by simp
  then show "x - x * eps \<le> fl x" "fl x \<le> x + x * eps" by linarith+
qed

lemma within_pos:
  assumes "roundsWithin eps fl" "eps < 1" "0 < x"
  shows "0 < fl x"
proof -
  have "x * eps < x" using assms(2,3) by simp
  with within_bounds(1)[OF assms(1), of x] assms(3) show ?thesis by linarith
qed

lemma jsRound_ge: "real_of_int n - 1 / 2 \<le> x \<Longrightarrow> n \<le> jsRound x"
  unfolding jsRound_def by (simp add: le_floor_iff)

lemma jsRound_eq: "real_of_int n - 1 / 2 \<le> x \<Longrightarrow> x < real_of_int n + 1 / 2 \<Longrightarrow> jsRound x = n"
  unfolding jsRound_def by (rule floor_unique) simp_all

lemma small_eps:
  assumes "0 \<le> eps" "0 < n" "4 * eps * real_of_int n \<le> 1"
  shows "eps \<le> 1 / 4"
proof -
  have "1 \<le> real_of_int n" using assms(2) by simp
  then have "4 * eps * 1 \<le> 4 * eps * real_of_int n"
    using assms(1) by (intro mult_left_mono) simp_all
  with assms(3) show ?thesis by simp
qed

lemma jsRound_fl_ge:
  assumes fl: "roundsWithin eps fl" and e: "0 \<le> eps"
    and n: "0 < n" "4 * eps * real_of_int n \<le> 1"
    and x: "real_of_int n - real_of_int n * eps \<le> x"
  shows "n \<le> jsRound (fl x)"
proof (rule jsRound_ge)
  let ?n = "real_of_int n"
  have e4: "eps \<le> 1 / 4" by (rule small_eps[OF e n])
  have "0 \<le> ?n * (1 - eps)" using n(1) e4 by simp
  then have x0: "0 \<le> x" using x by (simp add: algebra_simps)
  have "(?n - ?n * eps) * (1 - eps) \<le> x * (1 - eps)"
    using x e4 by (intro mult_right_mono) simp_all
  moreover have "x * (1 - eps) \<le> fl x"
    using within_bounds(1)[OF fl x0] by (simp add: algebra_simps)
  moreover have "?n - 1 / 2 \<le> (?n - ?n * eps) * (1 - eps)"
  proof -
    have "(?n - ?n * eps) * (1 - eps) = ?n - 2 * (eps * ?n) + ?n * eps * eps"
      by (simp add: algebra_simps)
    moreover have "0 \<le> ?n * eps * eps" using n(1) e by simp
    moreover have "2 * (eps * ?n) \<le> 1 / 2" using n(2) by simp
    ultimately show ?thesis by linarith
  qed
  ultimately show "?n - 1 / 2 \<le> fl x" by linarith
qed

lemma cover_covers:
  assumes fl: "roundsWithin eps fl" and e: "0 \<le> eps"
    and o: "0 < ow" "0 < oh" and t: "0 < tw" "0 < th"
    and b: "4 * eps * real_of_int tw \<le> 1" "4 * eps * real_of_int th \<le> 1"
  shows "tw \<le> dimWidth (calculateDimensions fl ow oh (Some tw) (Some th) Cover)
    \<and> th \<le> dimHeight (calculateDimensions fl ow oh (Some tw) (Some th) Cover)
    \<and> shouldCrop (calculateDimensions fl ow oh (Some tw) (Some th) Cover)"
proof -
  let ?tw = "real_of_int tw" and ?th = "real_of_int th"
  define a where "a = fl (real_of_int ow / real_of_int oh)"
  define r where "r = fl (?tw / ?th)"
  have e4: "eps \<le> 1 / 4" by (rule small_eps[OF e t(1) b(1)])
  have q0: "0 \<le> ?tw / ?th" using t by simp
  have d: "calculateDimensions fl ow oh (Some tw) (Some th) Cover =
      (if a > r then \<lparr> dimWidth = jsRound (fl (?th * a)), dimHeight = th, shouldCrop = True \<rparr>
       else \<lparr> dimWidth = tw, dimHeight = jsRound (fl (?tw / a)), shouldCrop = True \<rparr>)"
    using t by (simp add: calculateDimensions_def truthyNum_def Let_def a_def r_def)
  show ?thesis
  proof (cases "a > r")
    case True
    have "?tw / ?th - ?tw / ?th * eps \<le> r"
      unfolding r_def by (rule within_bounds(1)[OF fl q0])
    then have "?th * (?tw / ?th - ?tw / ?th * eps) \<le> ?th * r"
      using t(2) by (intro mult_left_mono) simp_all
    moreover have "?th * (?tw / ?th - ?tw / ?th * eps) = ?tw - ?tw * eps"
      using t(2) by (simp add: algebra_simps)
    moreover have "?th * r \<le> ?th * a" using True t(2) by simp
    ultimately have "?tw - ?tw * eps \<le> ?th * a" by linarith
    then have "tw \<le> jsRound (fl (?th * a))"
      by (rule jsRound_fl_ge[OF fl e t(1) b(1)])
    with True show ?thesis by (simp add: d)
  next
    case False
    have a0: "0 < a"
      unfolding a_def using o e4 by (intro within_pos[OF fl]) simp_all
    have "r \<le> ?tw / ?th + ?tw / ?th * eps"
      unfolding r_def by (rule within_bounds(2)[OF fl q0])
    with False have "a \<le> ?tw / ?th + ?tw / ?th * eps" by simp
    then have "(?th - ?th * eps) * a \<le> (?th - ?th * eps) * (?tw / ?th + ?tw / ?th * eps)"
      using t(2) e4 by (intro mult_left_mono) (simp_all add: algebra_simps)
    moreover have "(?th - ?th * eps) * (?tw / ?th + ?tw / ?th * eps) = ?tw - ?tw * eps * eps"
      using t(2) by (simp add: field_simps)
    moreover have "0 \<le> ?tw * eps * eps" using t(1) e by simp
    ultimately have "(?th - ?th * eps) * a \<le> ?tw" by linarith
    then have "?th - ?th * eps \<le> ?tw / a"
      using a0 by (simp add: pos_le_divide_eq)
    then have "th \<le> jsRound (fl (?tw / a))"
      by (rule jsRound_fl_ge[OF fl e t(2) b(2)])
    with False show ?thesis by (simp add: d)
  qed
qed

lemma jsRound_half: "jsRound (real_of_int k / 2) = (k + 1) div 2"
proof -
  have "real_of_int k / 2 + 1 / 2 = real_of_int (k + 1) / real_of_int 2" by simp
  then have "jsRound (real_of_int k / 2) = \<lfloor>real_of_int (k + 1) / real_of_int 2\<rfloor>"
    by (simp only: jsRound_def)
  also have "\<dots> = (k + 1) div 2" by (rule floor_divide_of_int_eq)
  finally show ?thesis .
qed

lemma jsRound_half_range: "0 \<le> k \<Longrightarrow> 0 \<le> jsRound (real_of_int k / 2) \<and> jsRound (real_of_int k / 2) \<le> k"
  unfolding jsRound_half by presburger

lemma applyCrop_within:
  assumes "tw \<le> w" "th \<le> h"
  shows "case applyCrop (w, h) tw th pos of
           None \<Rightarrow> w = tw \<and> h = th
         | Some (x, y, cw, ch) \<Rightarrow>
             0 \<le> x \<and> 0 \<le> y \<and> cw = tw \<and> ch = th \<and> x + cw \<le> w \<and> y + ch \<le> h"
proof -
  have x: "0 \<le> jsRound (real_of_int (w - tw) / 2)" "jsRound (real_of_int (w - tw) / 2) + tw \<le> w"
    using jsRound_half_range[of "w - tw"] assms(1) by simp_all
  have y: "0 \<le> jsRound (real_of_int (h - th) / 2)" "jsRound (real_of_int (h - th) / 2) + th \<le> h"
    using jsRound_half_range[of "h - th"] assms(2) by simp_all
  show ?thesis
    using x y assms by (cases pos) (simp_all add: applyCrop_def Let_def del: of_int_diff)
qed

text \<open>
  Claim C5: for positive natural dimensions and positive targets with fit \<^verbatim>\<open>cover\<close>, the
  resolved dimensions are at least the target on both axes and a crop is asked for; and
  for every crop position \<^verbatim>\<open>applyCrop\<close> on a raster of these dimensions either leaves
  it (it has the target size already) or crops a region of the target size whose offsets
  are not negative and which lies within the raster. This holds in exact arithmetic
  (\<open>eps = 0\<close>, any targets) and under the rounding of double precision
  (\<open>eps = 2\<^sup>-\<^sup>5\<^sup>3\<close>, targets up to \<open>2\<^sup>5\<^sup>1\<close>).
\<close>

theorem cover_geometry_and_crop:
  assumes "roundsWithin eps fl" "0 \<le> eps"
    and "0 < ow" "0 < oh" "0 < tw" "0 < th"
    and "4 * eps * real_of_int tw \<le> 1" "4 * eps * real_of_int th \<le> 1"
    and "d = calculateDimensions fl ow oh (Some tw) (Some th) Cover"
  shows "tw \<le> dimWidth d \<and> th \<le> dimHeight d \<and> shouldCrop d
    \<and> (case applyCrop (dimWidth d, dimHeight d) tw th pos of
          None \<Rightarrow> dimWidth d = tw \<and> dimHeight d = th
        | Some (x, y, cw, ch) \<Rightarrow>
            0 \<le> x \<and> 0 \<le> y \<and> cw = tw \<and> ch = th
            \<and> x + cw \<le> dimWidth d \<and> y + ch \<le> dimHeight d)"
proof -
  have c: "tw \<le> dimWidth d \<and> th \<le> dimHeight d \<and> shouldCrop d"
    unfolding assms(9) by (rule cover_covers[OF assms(1-8)])
  then have "case applyCrop (dimWidth d, dimHeight d) tw th pos of
          None \<Rightarrow> dimWidth d = tw \<and> dimHeight d = th
        | Some (x, y, cw, ch) \<Rightarrow>
            0 \<le> x \<and> 0 \<le> y \<and> cw = tw \<and> ch = th
            \<and> x + cw \<le> dimWidth d \<and> y + ch \<le> dimHeight d"
    by (intro applyCrop_within) simp_all
  with c show ?thesis by simp
qed

lemma exact_1000_800:
  "calculateDimensions (\<lambda>x. x) 1000 800 (Some 400) (Some 400) Cover
     = \<lparr> dimWidth = 500, dimHeight = 400, shouldCrop = True \<rparr>"
  by (simp add: calculateDimensions_def truthyNum_def jsRound_def)

theorem cover_geometry_and_crop_witness:
  "400 \<le> dimWidth (calculateDimensions (\<lambda>x. x) 1000 800 (Some 400) (Some 400) Cover)
   \<and> 400 \<le> dimHeight (calculateDimensions (\<lambda>x. x) 1000 800 (Some 400) (Some 400) Cover)
   \<and> shouldCrop (calculateDimensions (\<lambda>x. x) 1000 800 (Some 400) (Some 400) Cover)
   \<and> applyCrop (dimWidth (calculateDimensions (\<lambda>x. x) 1000 800 (Some 400) (Some 400) Cover),
                  dimHeight (calculateDimensions (\<lambda>x. x) 1000 800 (Some 400) (Some 400) Cover))
         400 400 Right = Some (100, 0, 400, 400)"
proof -
  have h: "roundsWithin 0 (\<lambda>x. x)" "(0::real) \<le> 0" "(0::int) < 1000" "(0::int) < 800"
    "(0::int) < 400" "(0::int) < 400" "4 * (0::real) * real_of_int 400 \<le> 1"
    "4 * (0::real) * real_of_int 400 \<le> 1"
    by (simp_all add: roundsWithin_def)
  have a: "applyCrop (500, 400) 400 400 Right = Some (100, 0, 400, 400)"
    by (simp add: applyCrop_def jsRound_def)
  from cover_geometry_and_crop[OF h refl, of Right] a
  show ?thesis by (simp add: exact_1000_800)
qed

lemma jsRound_fl_eq:
  assumes fl: "ieeeRounding fl"
    and x: "real_of_int n - 1 / 4 \<le> x" "x \<le> real_of_int n + 1 / 4" "0 \<le> x" "x \<le> 2 ^ 50"
  shows "jsRound (fl x) = n"
proof (rule jsRound_eq)
  from fl have w: "roundsWithin (1 / 2 ^ 53) fl" by (simp add: ieeeRounding_def)
  have "x * (1 / 2 ^ 53) \<le> 2 ^ 50 * (1 / 2 ^ 53)"
    using x(4) by (intro mult_right_mono) simp_all
  then have s: "x * (1 / 2 ^ 53) \<le> 1 / 8" by simp
  from within_bounds[OF w x(3)] s x(1,2)
  show "real_of_int n - 1 / 2 \<le> fl x" "fl x < real_of_int n + 1 / 2" by linarith+
qed

text \<open>
  Claim C4: on a 1000 by 800 source with both targets 400, under the rounding of double
  precision (and so in exact arithmetic too), fit \<^verbatim>\<open>contain\<close> resolves to 400 by 320
  without crop, fit \<^verbatim>\<open>fill\<close> to 400 by 400 without crop, and fit \<^verbatim>\<open>cover\<close> to
  500 by 400 with crop, both dimensions being at least 400.
\<close>

theorem geometry_1000_800:
  assumes "ieeeRounding fl"
  shows "calculateDimensions fl 1000 800 (Some 400) (Some 400) Contain
           = \<lparr> dimWidth = 400, dimHeight = 320, shouldCrop = False \<rparr>
    \<and> calculateDimensions fl 1000 800 (Some 400) (Some 400) Fill
           = \<lparr> dimWidth = 400, dimHeight = 400, shouldCrop = False \<rparr>
    \<and> calculateDimensions fl 1000 800 (Some 400) (Some 400) Cover
           = \<lparr> dimWidth = 500, dimHeight = 400, shouldCrop = True \<rparr>
    \<and> 400 \<le> dimWidth (calculateDimensions fl 1000 800 (Some 400) (Some 400) Cover)
    \<and> 400 \<le> dimHeight (calculateDimensions fl 1000 800 (Some 400) (Some 400) Cover)
    \<and> shouldCrop (calculateDimensions fl 1000 800 (Some 400) (Some 400) Cover)"
proof -
  from assms have w: "roundsWithin (1 / 2 ^ 53) fl" by (simp add: ieeeRounding_def)
  define a where "a = fl (5 / 4)"
  define r where "r = fl 1"
  have a: "5 / 4 - 5 / 4 * (1 / 2 ^ 53) \<le> a" "a \<le> 5 / 4 + 5 / 4 * (1 / 2 ^ 53)"
    unfolding a_def by (rule within_bounds[OF w], simp)+
  have r: "r \<le> 1 + 1 * (1 / 2 ^ 53)"
    unfolding r_def by (rule within_bounds[OF w], simp)
  have gt: "a > r" using a(1) r by simp
  have a0: "0 < a" using a(1) by simp
  have c: "calculateDimensions fl 1000 800 (Some 400) (Some 400) Contain
      = \<lparr> dimWidth = 400, dimHeight = jsRound (fl (400 / a)), shouldCrop = False \<rparr>"
    using gt by (simp add: calculateDimensions_def truthyNum_def a_def r_def)
  have f: "calculateDimensions fl 1000 800 (Some 400) (Some 400) Fill
      = \<lparr> dimWidth = 400, dimHeight = 400, shouldCrop = False \<rparr>"
    by (simp add: calculateDimensions_def truthyNum_def)
  have v: "calculateDimensions fl 1000 800 (Some 400) (Some 400) Cover
      = \<lparr> dimWidth = jsRound (fl (400 * a)), dimHeight = 400, shouldCrop = True \<rparr>"
    using gt by (simp add: calculateDimensions_def truthyNum_def a_def r_def)
  have "(1279 / 4) * a \<le> 400" "400 \<le> (1281 / 4) * a"
    using a by simp_all
  then have q: "1279 / 4 \<le> 400 / a" "400 / a \<le> 1281 / 4"
    using a0 by (simp_all add: pos_le_divide_eq pos_divide_le_eq)
  have h: "jsRound (fl (400 / a)) = 320"
    using q a0 by (intro jsRound_fl_eq[OF assms]) simp_all
  have "1999 / 4 \<le> 400 * a" "400 * a \<le> 2001 / 4"
    using a by simp_all
  then have wd: "jsRound (fl (400 * a)) = 500"
    by (intro jsRound_fl_eq[OF assms]) simp_all
  from c f v h wd show ?thesis by simp
qed

theorem geometry_1000_800_witness:
  "calculateDimensions (\<lambda>x. x) 1000 800 (Some 400) (Some 400) Contain
           = \<lparr> dimWidth = 400, dimHeight = 320, shouldCrop = False \<rparr>
   \<and> calculateDimensions (\<lambda>x. x) 1000 800 (Some 400) (Some 400) Cover
           = \<lparr> dimWidth = 500, dimHeight = 400, shouldCrop = True \<rparr>"
proof -
  have "ieeeRounding (\<lambda>x. x)" by (simp add: ieeeRounding_def roundsWithin_def)
  from geometry_1000_800[OF this] show ?thesis by simp
qed

end
